theory Spec2Isabelle
  imports Main "HOL-Library.Word" "HOL-Library.Signed_Division"
begin

unbundle bit_operations_syntax

section \<open>Errors\<close>

text \<open>
  The Go code reports failures as \<^verbatim>\<open>fmt.Errorf\<close> values that differ only in their message,
  and aborts with a run-time panic on an out-of-range index, a nil pointer or a division by
  zero. Each message and each panic is one constructor:
  \<^item> \<open>TooShort\<close>: "data length insufficient" (\<^verbatim>\<open>DeserializeTDMAFrame\<close>, first check);
  \<^item> \<open>LengthMismatch\<close>: "data length does not match" (\<^verbatim>\<open>DeserializeTDMAFrame\<close>, second
    check, and \<^verbatim>\<open>Validate\<close>, which use the same message);
  \<^item> \<open>InvalidHeader\<close>, \<open>InvalidFooter\<close>, \<open>ChecksumMismatch\<close>: the other three messages of
    \<^verbatim>\<open>Validate\<close>;
  \<^item> \<open>NoSlotAvailable\<close>, \<open>InsufficientConsecutiveSlots\<close>, \<open>InvalidSlotId\<close>: the messages of
    the scheduler;
  \<^item> \<open>IndexOutOfRange\<close>, \<open>NilDereference\<close>, \<open>DivideByZero\<close>: the run-time panics.
\<close>

datatype error =
    TooShort
  | LengthMismatch
  | InvalidHeader
  | InvalidFooter
  | ChecksumMismatch
  | NoSlotAvailable
  | InsufficientConsecutiveSlots
  | InvalidSlotId
  | IndexOutOfRange
  | NilDereference
  | DivideByZero

text \<open>Sequencing of fallible steps: the first error (or panic) ends the computation.\<close>

definition and_then :: "error + 'a \<Rightarrow> ('a \<Rightarrow> error + 'b) \<Rightarrow> error + 'b" where
  "and_then r k = (case r of Inl e \<Rightarrow> Inl e | Inr x \<Rightarrow> k x)"

section \<open>The frame (pkg/protocol/tdma\_frame.go)\<close>

type_synonym byte = "8 word"

text \<open>
  The struct \<^verbatim>\<open>TDMAFrame\<close>. The fixed arrays \<^verbatim>\<open>[8]byte\<close> and \<^verbatim>\<open>[32]byte\<close> are byte lists;
  their lengths are part of the Go type and appear below as \<open>length (NodeID f) = 32\<close>
  where a statement depends on them.
\<close>

record TDMAFrame =
  Header :: "byte list"
  SlotID :: "32 word"
  NodeID :: "byte list"
  Length :: "32 word"
  FragmentID :: "32 word"
  TotalFrags :: "16 word"
  FragIndex :: "16 word"
  Flags :: "16 word"
  Data :: "byte list"
  CRC :: "32 word"
  Footer :: "byte list"

definition FLAG_FRAGMENT :: "16 word" where "FLAG_FRAGMENT = 0x0001"
definition FLAG_FIRST_FRAG :: "16 word" where "FLAG_FIRST_FRAG = 0x0002"
definition FLAG_LAST_FRAG :: "16 word" where "FLAG_LAST_FRAG = 0x0004"
definition FLAG_NEED_ACK :: "16 word" where "FLAG_NEED_ACK = 0x0008"

definition FRAME_HEADER :: "byte list" where
  "FRAME_HEADER = [0xAA, 0x55, 0xAA, 0x55, 0xAA, 0x55, 0xAA, 0x55]"

definition FRAME_FOOTER :: "byte list" where
  "FRAME_FOOTER = [0x55, 0xAA, 0x55, 0xAA, 0x55, 0xAA, 0x55, 0xAA]"

subsection \<open>encoding/binary, big endian\<close>

definition PutUint32 :: "32 word \<Rightarrow> byte list" where
  "PutUint32 v = [ucast (drop_bit 24 v), ucast (drop_bit 16 v), ucast (drop_bit 8 v), ucast v]"

definition PutUint16 :: "16 word \<Rightarrow> byte list" where
  "PutUint16 v = [ucast (drop_bit 8 v), ucast v]"

definition join32 :: "byte \<Rightarrow> byte \<Rightarrow> byte \<Rightarrow> byte \<Rightarrow> 32 word" where
  "join32 b0 b1 b2 b3 =
     ucast b3 OR push_bit 8 (ucast b2) OR push_bit 16 (ucast b1) OR push_bit 24 (ucast b0)"

definition join16 :: "byte \<Rightarrow> byte \<Rightarrow> 16 word" where
  "join16 b0 b1 = ucast b1 OR push_bit 8 (ucast b0)"

text \<open>\<^verbatim>\<open>binary.BigEndian.Uint32(b)\<close> panics when \<open>b\<close> has fewer than four bytes.\<close>

fun Uint32 :: "byte list \<Rightarrow> error + 32 word" where
  "Uint32 (b0 # b1 # b2 # b3 # rest) = Inr (join32 b0 b1 b2 b3)"
| "Uint32 _ = Inl IndexOutOfRange"

fun Uint16 :: "byte list \<Rightarrow> error + 16 word" where
  "Uint16 (b0 # b1 # rest) = Inr (join16 b0 b1)"
| "Uint16 _ = Inl IndexOutOfRange"

text \<open>The slice expression \<^verbatim>\<open>b[lo:hi]\<close>, which panics outside the buffer.\<close>

definition slice :: "byte list \<Rightarrow> nat \<Rightarrow> nat \<Rightarrow> error + byte list" where
  "slice b lo hi =
     (if lo \<le> hi \<and> hi \<le> length b then Inr (take (hi - lo) (drop lo b))
      else Inl IndexOutOfRange)"

text \<open>
  \<^verbatim>\<open>copy(buf[offset:], src)\<close>: overwrites \<open>buf\<close> from \<open>offset\<close> with as many bytes of
  \<open>src\<close> as fit; the length of \<open>buf\<close> does not change.
\<close>

definition copy_to :: "byte list \<Rightarrow> nat \<Rightarrow> byte list \<Rightarrow> byte list" where
  "copy_to buf offset src =
     take offset buf @ take (length buf - offset) src @ drop (offset + length src) buf"

subsection \<open>calculateCRC\<close>

text \<open>One round of the checksum: \<^verbatim>\<open>crc = (crc << 1) ^ x\<close>.\<close>

definition crc_step :: "32 word \<Rightarrow> 32 word \<Rightarrow> 32 word" where
  "crc_step crc x = push_bit 1 crc XOR x"

definition crc_bytes :: "byte list \<Rightarrow> 32 word \<Rightarrow> 32 word" where
  "crc_bytes bs crc = foldl (\<lambda>c b. crc_step c (ucast b)) crc bs"

definition calculateCRC :: "TDMAFrame \<Rightarrow> 32 word" where
  "calculateCRC frame =
     (let crc = 0xFFFFFFFF;
          crc = crc_bytes (Header frame) crc;
          crc = crc_step crc (SlotID frame);
          crc = crc_step crc (ucast (TotalFrags frame));
          crc = crc_step crc (ucast (FragIndex frame));
          crc = crc_step crc (ucast (Flags frame))
      in crc_bytes (Data frame) crc)"

subsection \<open>Constructors\<close>

text \<open>
  \<^verbatim>\<open>copy(frame.NodeID[:], []byte(nodeID))\<close> into the zeroed 32-byte array: the first 32
  bytes of the identifier, padded with zeros.
\<close>

definition node_id_bytes :: "string \<Rightarrow> byte list" where
  "node_id_bytes nodeID = copy_to (replicate 32 0) 0 (map of_char nodeID)"

definition NewTDMAFrame :: "32 word \<Rightarrow> string \<Rightarrow> byte list \<Rightarrow> TDMAFrame" where
  "NewTDMAFrame slotID nodeID data =
     (let frame = \<lparr>Header = FRAME_HEADER, SlotID = slotID, NodeID = node_id_bytes nodeID,
                    Length = of_nat (length data), FragmentID = 0, TotalFrags = 1,
                    FragIndex = 0, Flags = 0, Data = data, CRC = 0, Footer = FRAME_FOOTER\<rparr>
      in frame\<lparr>CRC := calculateCRC frame\<rparr>)"

definition NewFragmentTDMAFrame ::
  "32 word \<Rightarrow> string \<Rightarrow> 32 word \<Rightarrow> 16 word \<Rightarrow> 16 word \<Rightarrow> byte list \<Rightarrow> bool \<Rightarrow> bool \<Rightarrow> TDMAFrame"
where
  "NewFragmentTDMAFrame slotID nodeID fragmentID totalFrags fragIndex data isFirst isLast =
     (let frame = \<lparr>Header = FRAME_HEADER, SlotID = slotID, NodeID = node_id_bytes nodeID,
                    Length = of_nat (length data), FragmentID = fragmentID,
                    TotalFrags = totalFrags, FragIndex = fragIndex, Flags = FLAG_FRAGMENT,
                    Data = data, CRC = 0, Footer = FRAME_FOOTER\<rparr>;
          frame = (if isFirst then frame\<lparr>Flags := Flags frame OR FLAG_FIRST_FRAG\<rparr> else frame);
          frame = (if isLast then frame\<lparr>Flags := Flags frame OR FLAG_LAST_FRAG\<rparr> else frame)
      in frame\<lparr>CRC := calculateCRC frame\<rparr>)"

subsection \<open>Serialize\<close>

text \<open>
  The buffer has \<open>totalLen\<close> zero bytes and is filled field by field at the running
  offset of the source (written out here as the constant it has at each step). Every write
  lies inside the buffer, because \<open>totalLen\<close> is the sum of the widths written; the error
  result of the Go function is always \<^verbatim>\<open>nil\<close>, so the model returns the buffer.
\<close>

definition Serialize :: "TDMAFrame \<Rightarrow> byte list" where
  "Serialize f =
     (let totalLen = 8 + 4 + 32 + 4 + 4 + 2 + 2 + 2 + length (Data f) + 4 + 8;
          buf = replicate totalLen 0;
          buf = copy_to buf 0 (Header f);
          buf = copy_to buf 8 (PutUint32 (SlotID f));
          buf = copy_to buf 12 (NodeID f);
          buf = copy_to buf 44 (PutUint32 (Length f));
          buf = copy_to buf 48 (PutUint32 (FragmentID f));
          buf = copy_to buf 52 (PutUint16 (TotalFrags f));
          buf = copy_to buf 54 (PutUint16 (FragIndex f));
          buf = copy_to buf 56 (PutUint16 (Flags f));
          buf = copy_to buf 58 (Data f);
          buf = copy_to buf (58 + length (Data f)) (PutUint32 (CRC f))
      in copy_to buf (58 + length (Data f) + 4) (Footer f))"

subsection \<open>DeserializeTDMAFrame\<close>

text \<open>
  The reads follow the source in order; the offsets 8, 12, 44, 48, 52, 54, 56 and 58 are
  the values of the source's \<open>offset\<close> variable at each read. \<open>int(frame.Length)\<close> is
  \<open>unat\<close> on a 64-bit platform.
\<close>

definition DeserializeTDMAFrame :: "byte list \<Rightarrow> error + TDMAFrame" where
  "DeserializeTDMAFrame data =
     (if length data < 60 then Inl TooShort
      else
        and_then (slice data 0 8) (\<lambda>header.
        and_then (Uint32 (drop 8 data)) (\<lambda>slotID.
        and_then (slice data 12 44) (\<lambda>nodeID.
        and_then (Uint32 (drop 44 data)) (\<lambda>len.
        and_then (Uint32 (drop 48 data)) (\<lambda>fragmentID.
        and_then (Uint16 (drop 52 data)) (\<lambda>totalFrags.
        and_then (Uint16 (drop 54 data)) (\<lambda>fragIndex.
        and_then (Uint16 (drop 56 data)) (\<lambda>flags.
          let dataLen = unat len in
          if 58 + dataLen + 12 > length data then Inl LengthMismatch
          else
            and_then (slice data 58 (58 + dataLen)) (\<lambda>payload.
            and_then (Uint32 (drop (58 + dataLen) data)) (\<lambda>crc.
            and_then (slice data (58 + dataLen + 4) (58 + dataLen + 4 + 8)) (\<lambda>footer.
              Inr \<lparr>Header = header, SlotID = slotID, NodeID = nodeID, Length = len,
                   FragmentID = fragmentID, TotalFrags = totalFrags,
                   FragIndex = fragIndex, Flags = flags, Data = payload, CRC = crc,
                   Footer = footer\<rparr>))))))))))))"

subsection \<open>Validate\<close>

definition Validate :: "TDMAFrame \<Rightarrow> error + unit" where
  "Validate f =
     (if Header f \<noteq> FRAME_HEADER then Inl InvalidHeader
      else if Footer f \<noteq> FRAME_FOOTER then Inl InvalidFooter
      else if calculateCRC f \<noteq> CRC f then Inl ChecksumMismatch
      else if (of_nat (length (Data f)) :: 32 word) \<noteq> Length f then Inl LengthMismatch
      else Inr ())"

subsection \<open>Flag tests\<close>

definition IsFragment :: "TDMAFrame \<Rightarrow> bool" where
  "IsFragment f \<longleftrightarrow> Flags f AND FLAG_FRAGMENT \<noteq> 0"

definition IsFirstFragment :: "TDMAFrame \<Rightarrow> bool" where
  "IsFirstFragment f \<longleftrightarrow> Flags f AND FLAG_FIRST_FRAG \<noteq> 0"

definition IsLastFragment :: "TDMAFrame \<Rightarrow> bool" where
  "IsLastFragment f \<longleftrightarrow> Flags f AND FLAG_LAST_FRAG \<noteq> 0"

section \<open>The global slot clock (pkg/protocol/tdma\_frame.go)\<close>

text \<open>
  A \<^verbatim>\<open>time.Time\<close> is an instant, here the number of nanoseconds since the Unix epoch
  (an \<open>int\<close>: Go's range of instants is wider than 64 bits of nanoseconds). A
  \<^verbatim>\<open>time.Duration\<close> is an \<^verbatim>\<open>int64\<close> of nanoseconds, and \<^verbatim>\<open>int\<close> has 64 bits on the
  platforms the program is built for.
\<close>

type_synonym Time = int
type_synonym Duration = "64 word"

definition maxDuration :: int where "maxDuration = 2 ^ 63 - 1"
definition minDuration :: int where "minDuration = - (2 ^ 63)"

text \<open>\<^verbatim>\<open>t.Sub(u)\<close> saturates at the largest and smallest duration.\<close>

definition time_Sub :: "Time \<Rightarrow> Time \<Rightarrow> Duration" where
  "time_Sub t u =
     (let d = t - u in
      if d > maxDuration then word_of_int maxDuration
      else if d < minDuration then word_of_int minDuration
      else word_of_int d)"

text \<open>\<^verbatim>\<open>time.Since(t)\<close> is \<^verbatim>\<open>time.Now().Sub(t)\<close>; the clock reading is the argument \<open>now\<close>.\<close>

definition time_Since :: "Time \<Rightarrow> Time \<Rightarrow> Duration" where
  "time_Since now t = time_Sub now t"

text \<open>
  Go's \<^verbatim>\<open>/\<close> and \<^verbatim>\<open>%\<close> on 64-bit signed integers truncate towards zero and wrap around
  (only \<open>-2^63 / -1\<close> can); the callers check for a zero divisor, where Go panics.
\<close>

definition go_div64 :: "64 word \<Rightarrow> 64 word \<Rightarrow> 64 word" where
  "go_div64 a b = word_of_int (sint a sdiv sint b)"

definition go_mod64 :: "64 word \<Rightarrow> 64 word \<Rightarrow> 64 word" where
  "go_mod64 a b = word_of_int (sint a smod sint b)"

text \<open>\<^verbatim>\<open>time.Date(2024, 1, 1, 0, 0, 0, 0, time.UTC)\<close>: 1704067200 seconds after the Unix epoch.\<close>

definition TDMA_EPOCH :: Time where
  "TDMA_EPOCH = 1704067200 * 1000000000"

text \<open>
  \<^verbatim>\<open>GetGlobalSlotID\<close> reads the wall clock; the reading is the argument \<open>now\<close>. The
  quotient is computed first, then the remainder, each panicking on a zero divisor.
\<close>

definition GetGlobalSlotID :: "Time \<Rightarrow> Duration \<Rightarrow> 64 word \<Rightarrow> error + 64 word" where
  "GetGlobalSlotID now slotDuration totalSlots =
     (let elapsed = time_Sub now TDMA_EPOCH in
      if slotDuration = 0 then Inl DivideByZero
      else let q = go_div64 elapsed slotDuration in
           if totalSlots = 0 then Inl DivideByZero
           else Inr (go_mod64 q totalSlots))"

section \<open>The scheduler (internal/scheduler)\<close>

text \<open>
  The struct \<^verbatim>\<open>SlotStatus\<close>; its fields carry the prefix \<open>slot_\<close> because \<open>SlotID\<close>,
  \<open>NodeID\<close> and \<open>FragmentID\<close> are fields of the frame too. The status is the string the
  code stores ("FREE", "ASSIGNED").
\<close>

record SlotStatus =
  slot_SlotID :: int
  slot_NodeID :: string
  slot_Status :: string
  slot_StartTime :: Time
  slot_Duration :: Duration
  slot_FragmentID :: "32 word"

text \<open>
  The struct \<^verbatim>\<open>TDMAScheduler\<close> without its mutex: every operation holds the lock from
  entry to return, so each is one atomic step on this state. The table is a map from slot
  number to a pointer; a missing key reads as the nil pointer, and using it panics. Slot
  numbers are \<open>int\<close>, with the 64-bit wrap-around written out where an operand comes from
  the caller (\<open>sub64\<close> below): in a table that fits in memory the index arithmetic of the code
  stays far inside 64 bits.
\<close>

record TDMAScheduler =
  slots :: "int \<rightharpoonup> SlotStatus"
  totalSlots :: int
  slotDuration :: Duration
  currentSlot :: int
  startTime :: Time

text \<open>The zero \<^verbatim>\<open>time.Time\<close>: January 1 of year 1, 62135596800 seconds before the Unix epoch.\<close>

definition zero_Time :: Time where
  "zero_Time = - 62135596800 * 1000000000"

function init_slots :: "int \<Rightarrow> int \<Rightarrow> Duration \<Rightarrow> (int \<rightharpoonup> SlotStatus) \<Rightarrow> (int \<rightharpoonup> SlotStatus)" where
  "init_slots i n d m =
     (if i < n
      then init_slots (i + 1) n d
             (m(i \<mapsto> \<lparr>slot_SlotID = i, slot_NodeID = [], slot_Status = ''FREE'',
                       slot_StartTime = zero_Time, slot_Duration = d, slot_FragmentID = 0\<rparr>))
      else m)"
  by pat_completeness auto
termination
  by (relation "measure (\<lambda>(i, n, d, m). nat (n - i))") auto

definition NewTDMAScheduler :: "int \<Rightarrow> Duration \<Rightarrow> Time \<Rightarrow> TDMAScheduler" where
  "NewTDMAScheduler n d now =
     \<lparr>slots = init_slots 0 n d Map.empty, totalSlots = n, slotDuration = d, currentSlot = 0,
      startTime = now\<rparr>"

subsection \<open>AllocateTimeSlot\<close>

text \<open>The three assignments made when a slot is given to a node.\<close>

definition assign :: "SlotStatus \<Rightarrow> string \<Rightarrow> Time \<Rightarrow> SlotStatus" where
  "assign sl nodeID now =
     sl\<lparr>slot_NodeID := nodeID, slot_Status := ''ASSIGNED'', slot_StartTime := now\<rparr>"

definition put_slot :: "TDMAScheduler \<Rightarrow> int \<Rightarrow> SlotStatus \<Rightarrow> TDMAScheduler" where
  "put_slot s i sl = s\<lparr>slots := (slots s)(i \<mapsto> sl)\<rparr>"

text \<open>
  First loop: the node's own slot. A fresh one (younger than ten slot durations) is
  returned at once; an expired one is freed and the loop goes on. The result is
  \<open>Some i\<close> for the early return and \<open>None\<close> when the loop runs to its end.
\<close>

function own_slot :: "string \<Rightarrow> Time \<Rightarrow> int \<Rightarrow> TDMAScheduler \<Rightarrow> (error + int option) \<times> TDMAScheduler" where
  "own_slot nodeID now i s =
     (if i < totalSlots s then
        (case slots s i of
           None \<Rightarrow> (Inl NilDereference, s)
         | Some sl \<Rightarrow>
             if slot_NodeID sl = nodeID \<and> slot_Status sl = ''ASSIGNED'' then
               (if time_Since now (slot_StartTime sl) <s slotDuration s * 10
                then (Inr (Some i), s)
                else own_slot nodeID now (i + 1)
                       (put_slot s i (sl\<lparr>slot_Status := ''FREE'', slot_NodeID := []\<rparr>)))
             else own_slot nodeID now (i + 1) s)
      else (Inr None, s))"
  by pat_completeness auto
termination
  by (relation "measure (\<lambda>(nodeID, now, i, s). nat (totalSlots s - i))")
     (auto simp: put_slot_def)

text \<open>
  Third loop: the ring from two positions after the current slot. The first free slot is
  assigned and returned from inside the loop (\<open>Some\<close>); \<open>None\<close> means that the loop
  ran to its end.
\<close>

function scan_free ::
  "TDMAScheduler \<Rightarrow> string \<Rightarrow> Time \<Rightarrow> int \<Rightarrow> int \<Rightarrow> ((error + int) \<times> TDMAScheduler) option"
where
  "scan_free s nodeID now cur offset =
     (if offset < totalSlots s then
        (let slotID = (cur + offset) smod totalSlots s in
         case slots s slotID of
           None \<Rightarrow> Some (Inl NilDereference, s)
         | Some sl \<Rightarrow>
             if slot_Status sl = ''FREE''
             then Some (Inr slotID, put_slot s slotID (assign sl nodeID now))
             else scan_free s nodeID now cur (offset + 1))
      else None)"
  by pat_completeness auto
termination
  by (relation "measure (\<lambda>(s, nodeID, now, cur, offset). nat (totalSlots s - offset))") auto

text \<open>Fourth loop: the assigned slot with the earliest start time before \<open>oldestTime\<close>.\<close>

function find_oldest :: "TDMAScheduler \<Rightarrow> int \<Rightarrow> int \<Rightarrow> Time \<Rightarrow> error + int \<times> Time" where
  "find_oldest s i oldestSlot oldestTime =
     (if i < totalSlots s then
        (case slots s i of
           None \<Rightarrow> Inl NilDereference
         | Some sl \<Rightarrow>
             if slot_Status sl = ''ASSIGNED'' \<and> slot_StartTime sl < oldestTime
             then find_oldest s (i + 1) i (slot_StartTime sl)
             else find_oldest s (i + 1) oldestSlot oldestTime)
      else Inr (oldestSlot, oldestTime))"
  by pat_completeness auto
termination
  by (relation "measure (\<lambda>(s, i, oldestSlot, oldestTime). nat (totalSlots s - i))") auto

text \<open>\<open>if s.slots[k].Status == "FREE" { assign; return k }\<close>, else the continuation.\<close>

definition take_if_free ::
  "TDMAScheduler \<Rightarrow> int \<Rightarrow> string \<Rightarrow> Time \<Rightarrow> ((error + int) \<times> TDMAScheduler) \<Rightarrow>
   (error + int) \<times> TDMAScheduler"
where
  "take_if_free s k nodeID now otherwise =
     (case slots s k of
        None \<Rightarrow> (Inl NilDereference, s)
      | Some sl \<Rightarrow>
          if slot_Status sl = ''FREE'' then (Inr k, put_slot s k (assign sl nodeID now))
          else otherwise)"

text \<open>The last resort: reuse the oldest assigned slot when it is older than five slot durations.\<close>

definition reuse_oldest :: "TDMAScheduler \<Rightarrow> string \<Rightarrow> Time \<Rightarrow> (error + int) \<times> TDMAScheduler" where
  "reuse_oldest s nodeID now =
     (case find_oldest s 0 (- 1) now of
        Inl e \<Rightarrow> (Inl e, s)
      | Inr (oldestSlot, oldestTime) \<Rightarrow>
          if oldestSlot \<noteq> - 1 \<and> slotDuration s * 5 <s time_Since now oldestTime then
            (case slots s oldestSlot of
               None \<Rightarrow> (Inl NilDereference, s)
             | Some sl \<Rightarrow> (Inr oldestSlot, put_slot s oldestSlot (assign sl nodeID now)))
          else (Inl NoSlotAvailable, s))"

definition scan_ring :: "TDMAScheduler \<Rightarrow> string \<Rightarrow> Time \<Rightarrow> (error + int) \<times> TDMAScheduler" where
  "scan_ring s nodeID now =
     (case scan_free s nodeID now (currentSlot s) 2 of
        Some r \<Rightarrow> r
      | None \<Rightarrow> reuse_oldest s nodeID now)"

text \<open>
  The whole operation. \<open>priority\<close> is not used by the code. Every clock reading made
  during one call is the single instant \<open>now\<close>.
\<close>

definition AllocateTimeSlot ::
  "TDMAScheduler \<Rightarrow> string \<Rightarrow> int \<Rightarrow> Time \<Rightarrow> (error + int) \<times> TDMAScheduler"
where
  "AllocateTimeSlot s0 nodeID priority now =
     (case own_slot nodeID now 0 s0 of
        (Inl e, s) \<Rightarrow> (Inl e, s)
      | (Inr (Some i), s) \<Rightarrow> (Inr i, s)
      | (Inr None, s) \<Rightarrow>
          if totalSlots s = 0 then (Inl DivideByZero, s)
          else
            take_if_free s (currentSlot s) nodeID now
              (take_if_free s ((currentSlot s + 1) smod totalSlots s) nodeID now
                 (scan_ring s nodeID now)))"

subsection \<open>AllocateConsecutiveSlots\<close>

text \<open>The inner loop that tests the window starting at \<open>i\<close>, from position \<open>j\<close>.\<close>

function window_free :: "(int \<rightharpoonup> SlotStatus) \<Rightarrow> int \<Rightarrow> int \<Rightarrow> int \<Rightarrow> error + bool" where
  "window_free m i j count =
     (if j < count then
        (case m (i + j) of
           None \<Rightarrow> Inl NilDereference
         | Some sl \<Rightarrow>
             if slot_Status sl \<noteq> ''FREE'' then Inr False
             else window_free m i (j + 1) count)
      else Inr True)"
  by pat_completeness auto
termination
  by (relation "measure (\<lambda>(m, i, j, count). nat (count - j))") auto

text \<open>The inner loop that assigns the window and collects the slot numbers.\<close>

function assign_window ::
  "TDMAScheduler \<Rightarrow> string \<Rightarrow> Time \<Rightarrow> int \<Rightarrow> int \<Rightarrow> int \<Rightarrow> int list \<Rightarrow>
   (error + int list) \<times> TDMAScheduler"
where
  "assign_window s nodeID now i j count slotIDs =
     (if j < count then
        (case slots s (i + j) of
           None \<Rightarrow> (Inl NilDereference, s)
         | Some sl \<Rightarrow>
             assign_window (put_slot s (i + j) (assign sl nodeID now)) nodeID now i (j + 1)
               count (slotIDs @ [i + j]))
      else (Inr slotIDs, s))"
  by pat_completeness auto
termination
  by (relation "measure (\<lambda>(s, nodeID, now, i, j, count, slotIDs). nat (count - j))") auto

text \<open>
  Go's \<^verbatim>\<open>a - b\<close> on \<^verbatim>\<open>int\<close>: the difference, wrapped around into 64 bits. The loop
  bound \<^verbatim>\<open>s.totalSlots-count\<close> takes \<open>count\<close> from the caller, so it can wrap.
\<close>

definition sub64 :: "int \<Rightarrow> int \<Rightarrow> int" where
  "sub64 a b = signed_take_bit 63 (a - b)"

text \<open>
  The outer loop over the window's first slot. When \<open>i + 1\<close> or \<open>i + j\<close> is computed,
  the window at \<open>i\<close> has at least one slot (\<open>count > 0\<close>), so in a table whose number of
  slots is not negative the bound is the exact difference and these sums are at most the
  number of slots.
\<close>

function first_fit ::
  "TDMAScheduler \<Rightarrow> string \<Rightarrow> int \<Rightarrow> Time \<Rightarrow> int \<Rightarrow> (error + int list) \<times> TDMAScheduler"
where
  "first_fit s nodeID count now i =
     (if i \<le> sub64 (totalSlots s) count then
        (case window_free (slots s) i 0 count of
           Inl e \<Rightarrow> (Inl e, s)
         | Inr available \<Rightarrow>
             if available then assign_window s nodeID now i 0 count []
             else first_fit s nodeID count now (i + 1))
      else (Inl InsufficientConsecutiveSlots, s))"
  by pat_completeness auto
termination
  by (relation "measure (\<lambda>(s, nodeID, count, now, i). nat (sub64 (totalSlots s) count + 1 - i))") auto

definition AllocateConsecutiveSlots ::
  "TDMAScheduler \<Rightarrow> string \<Rightarrow> int \<Rightarrow> Time \<Rightarrow> (error + int list) \<times> TDMAScheduler"
where
  "AllocateConsecutiveSlots s nodeID count now = first_fit s nodeID count now 0"

subsection \<open>ReleaseTimeSlot and the ticker\<close>

definition ReleaseTimeSlot :: "TDMAScheduler \<Rightarrow> int \<Rightarrow> (error + unit) \<times> TDMAScheduler" where
  "ReleaseTimeSlot s slotID =
     (if slotID < 0 \<or> slotID \<ge> totalSlots s then (Inl InvalidSlotId, s)
      else case slots s slotID of
             None \<Rightarrow> (Inl NilDereference, s)
           | Some sl \<Rightarrow>
               (Inr (), put_slot s slotID
                          (sl\<lparr>slot_Status := ''FREE'', slot_NodeID := [], slot_FragmentID := 0\<rparr>)))"

text \<open>One round of \<^verbatim>\<open>scheduleLoop\<close>: the current slot moves on by one.\<close>

definition tick :: "TDMAScheduler \<Rightarrow> error + TDMAScheduler" where
  "tick s =
     (if totalSlots s = 0 then Inl DivideByZero
      else Inr (s\<lparr>currentSlot := (currentSlot s + 1) smod totalSlots s\<rparr>))"

section \<open>Splitting a payload into fragments\<close>

text \<open>
  Modelled from the spec: the repository has no function that splits a payload; it has
  only the two constructors \<^verbatim>\<open>NewTDMAFrame\<close> and \<^verbatim>\<open>NewFragmentTDMAFrame\<close> above. The
  chunking below follows section 4.3 of the specification: consecutive pieces of at most
  \<open>maxFragmentPayloadSize\<close> bytes.
\<close>

function chunks :: "nat \<Rightarrow> byte list \<Rightarrow> byte list list" where
  "chunks m xs = (if m = 0 \<or> xs = [] then [] else take m xs # chunks m (drop m xs))"
  by pat_completeness auto
termination
  by (relation "measure (\<lambda>(m, xs). length xs)") auto

declare chunks.simps [simp del]

text \<open>
  Modelled from the spec: \<open>split\<close> of section 4.3, built on the constructors of the source. A
  payload that fits in one piece gives the single frame of \<^verbatim>\<open>NewTDMAFrame\<close>; otherwise
  every piece becomes a frame of \<^verbatim>\<open>NewFragmentTDMAFrame\<close> that carries the number of
  pieces and its index in the 16-bit fields of the frame, is marked first at index 0 and
  last at the last index. The fresh fragment id is the argument \<open>fragmentId\<close>. The
  specification says nothing about a fragment size of 0.
\<close>

definition split :: "byte list \<Rightarrow> nat \<Rightarrow> string \<Rightarrow> 32 word \<Rightarrow> 32 word \<Rightarrow> TDMAFrame list" where
  "split payload maxFragmentPayloadSize nodeId slotId fragmentId =
     (if length payload \<le> maxFragmentPayloadSize then [NewTDMAFrame slotId nodeId payload]
      else
        let pieces = chunks maxFragmentPayloadSize payload;
            totalFragments = length pieces
        in map (\<lambda>i. NewFragmentTDMAFrame slotId nodeId fragmentId (of_nat totalFragments)
                       (of_nat i) (pieces ! i) (i = 0) (i = totalFragments - 1))
               [0..<totalFragments])"

text \<open>
  The recursive equations of the loops are unfolded by hand in the proofs below, one round
  at a time.
\<close>

declare init_slots.simps [simp del] own_slot.simps [simp del] scan_free.simps [simp del]
  find_oldest.simps [simp del] window_free.simps [simp del] assign_window.simps [simp del]
  first_fit.simps [simp del]

section \<open>Notions used in the statements\<close>

text \<open>
  The frame that \<^verbatim>\<open>DeserializeTDMAFrame\<close> builds from a buffer whose length field reads
  \<open>len\<close>, field by field.
\<close>

definition frame_at :: "byte list \<Rightarrow> 32 word \<Rightarrow> TDMAFrame" where
  "frame_at data len =
     \<lparr>Header = take 8 data,
      SlotID = join32 (data ! 8) (data ! 9) (data ! 10) (data ! 11),
      NodeID = take 32 (drop 12 data),
      Length = len,
      FragmentID = join32 (data ! 48) (data ! 49) (data ! 50) (data ! 51),
      TotalFrags = join16 (data ! 52) (data ! 53),
      FragIndex = join16 (data ! 54) (data ! 55),
      Flags = join16 (data ! 56) (data ! 57),
      Data = take (unat len) (drop 58 data),
      CRC = join32 (data ! (58 + unat len)) (data ! (59 + unat len))
                   (data ! (60 + unat len)) (data ! (61 + unat len)),
      Footer = take 8 (drop (62 + unat len) data)\<rparr>"

text \<open>A frame built by \<^verbatim>\<open>NewTDMAFrame\<close> around a payload of exactly \<open>2^32\<close> bytes.\<close>

definition oversized_frame :: TDMAFrame where
  "oversized_frame = NewTDMAFrame 0 [] (replicate (2 ^ 32) 0)"

text \<open>A slot is free when the table holds a record for it whose status is "FREE".\<close>

definition slot_free :: "(int \<rightharpoonup> SlotStatus) \<Rightarrow> int \<Rightarrow> bool" where
  "slot_free m k = (case m k of None \<Rightarrow> False | Some sl \<Rightarrow> slot_Status sl = ''FREE'')"

definition free_at :: "TDMAScheduler \<Rightarrow> int \<Rightarrow> bool" where
  "free_at s k = slot_free (slots s) k"

text \<open>The window of \<open>count\<close> slots that starts at slot \<open>i\<close> is free.\<close>

definition window_is_free :: "(int \<rightharpoonup> SlotStatus) \<Rightarrow> int \<Rightarrow> int \<Rightarrow> bool" where
  "window_is_free m i count = (\<forall>j\<in>{0..<count}. slot_free m (i + j))"

text \<open>
  The table holds a record for every slot number below \<open>totalSlots\<close>, as
  \<^verbatim>\<open>NewTDMAScheduler\<close> builds it; no operation adds or removes a key.
\<close>

definition populated :: "TDMAScheduler \<Rightarrow> bool" where
  "populated s = (\<forall>k\<in>{0..<totalSlots s}. slots s k \<noteq> None)"

text \<open>The values of Go's 64-bit \<^verbatim>\<open>int\<close>.\<close>

definition is_int64 :: "int \<Rightarrow> bool" where
  "is_int64 k \<longleftrightarrow> - (2 ^ 63) \<le> k \<and> k < 2 ^ 63"

text \<open>The state in which exactly the slots \<open>i, \<dots>, i + count - 1\<close> have been assigned to \<open>nodeID\<close>.\<close>

definition assign_range :: "TDMAScheduler \<Rightarrow> string \<Rightarrow> Time \<Rightarrow> int \<Rightarrow> int \<Rightarrow> TDMAScheduler" where
  "assign_range s nodeID now i count =
     s\<lparr>slots := (\<lambda>k. if i \<le> k \<and> k < i + count
                       then map_option (\<lambda>sl. assign sl nodeID now) (slots s k)
                       else slots s k)\<rparr>"

text \<open>\<open>n\<close> rounds of the ticker.\<close>

fun ticks :: "nat \<Rightarrow> TDMAScheduler \<Rightarrow> error + TDMAScheduler" where
  "ticks 0 s = Inr s"
| "ticks (Suc n) s = and_then (tick s) (ticks n)"

text \<open>
  The states of the examples: a fresh table of ten one-second slots whose current slot is
  3; that table (at current slot 0) after a node took three consecutive slots; a table of
  two slots, both just assigned.
\<close>

definition scenario_start :: "Time \<Rightarrow> TDMAScheduler" where
  "scenario_start t0 = (NewTDMAScheduler 10 1000000000 t0)\<lparr>currentSlot := 3\<rparr>"

definition three_taken :: TDMAScheduler where
  "three_taken = snd (AllocateConsecutiveSlots (NewTDMAScheduler 10 1000000000 0) ''X'' 3 1)"

definition full_table :: TDMAScheduler where
  "full_table =
     snd (AllocateTimeSlot (snd (AllocateTimeSlot (NewTDMAScheduler 2 1000000000 0) ''A'' 1 100))
            ''B'' 1 100)"

section \<open>The frame codec\<close>

lemma join32_PutUint32: "join32 (ucast (drop_bit 24 v)) (ucast (drop_bit 16 v)) (ucast (drop_bit 8 v)) (ucast v) = v"
proof (rule bit_word_eqI)
  fix n :: nat
  assume "n < LENGTH(32)"
  then have n: "n < 32" by simp
  consider "n < 8" | "8 \<le> n" "n < 16" | "16 \<le> n" "n < 24" | "24 \<le> n" "n < 32"
    using n by linarith
  then show "bit (join32 (ucast (drop_bit 24 v)) (ucast (drop_bit 16 v)) (ucast (drop_bit 8 v)) (ucast v)) n = bit v n"
    by cases (auto simp add: join32_def bit_simps)
qed

lemma join16_PutUint16: "join16 (ucast (drop_bit 8 v)) (ucast v) = v"
proof (rule bit_word_eqI)
  fix n :: nat
  assume "n < LENGTH(16)"
  then have n: "n < 16" by simp
  consider "n < 8" | "8 \<le> n" "n < 16" 
    using n by linarith
  then show "bit (join16 (ucast (drop_bit 8 v)) (ucast v)) n = bit v n"
    by cases (auto simp add: join16_def bit_simps)
qed

lemma Uint32_PutUint32: "Uint32 (PutUint32 v @ rest) = Inr v"
  by (simp add: PutUint32_def join32_PutUint32)

lemma Uint16_PutUint16: "Uint16 (PutUint16 v @ rest) = Inr v"
  by (simp add: PutUint16_def join16_PutUint16)

lemma length_PutUint32: "length (PutUint32 v) = 4"
  by (simp add: PutUint32_def)

lemma length_PutUint16: "length (PutUint16 v) = 2"
  by (simp add: PutUint16_def)

lemma length_copy_to: "length (copy_to buf offset src) = length buf"
  by (simp add: copy_to_def)

lemma Uint32_nth:
  "Uint32 b = (if length b < 4 then Inl IndexOutOfRange
               else Inr (join32 (b ! 0) (b ! 1) (b ! 2) (b ! 3)))"
  by (cases b rule: Uint32.cases) simp_all

lemma Uint16_nth:
  "Uint16 b = (if length b < 2 then Inl IndexOutOfRange else Inr (join16 (b ! 0) (b ! 1)))"
  by (cases b rule: Uint16.cases) simp_all

lemma length_Serialize: "length (Serialize f) = 70 + length (Data f)"
  by (simp add: Serialize_def Let_def length_copy_to)

lemma copy_to_fill:
  "offset = length pre \<Longrightarrow> length src \<le> n \<Longrightarrow>
   copy_to (pre @ replicate n 0) offset src = (pre @ src) @ replicate (n - length src) 0"
  by (simp add: copy_to_def)

lemma Serialize_layout:
  assumes "length (Header f) = 8" "length (NodeID f) = 32" "length (Footer f) = 8"
  shows "Serialize f =
     Header f @ PutUint32 (SlotID f) @ NodeID f @ PutUint32 (Length f) @
     PutUint32 (FragmentID f) @ PutUint16 (TotalFrags f) @ PutUint16 (FragIndex f) @
     PutUint16 (Flags f) @ Data f @ PutUint32 (CRC f) @ Footer f"
proof -
  let ?d = "length (Data f)"
  define b0 :: "byte list" where "b0 = replicate (8 + 4 + 32 + 4 + 4 + 2 + 2 + 2 + ?d + 4 + 8) 0"
  define b1 where "b1 = copy_to b0 0 (Header f)"
  define b2 where "b2 = copy_to b1 8 (PutUint32 (SlotID f))"
  define b3 where "b3 = copy_to b2 12 (NodeID f)"
  define b4 where "b4 = copy_to b3 44 (PutUint32 (Length f))"
  define b5 where "b5 = copy_to b4 48 (PutUint32 (FragmentID f))"
  define b6 where "b6 = copy_to b5 52 (PutUint16 (TotalFrags f))"
  define b7 where "b7 = copy_to b6 54 (PutUint16 (FragIndex f))"
  define b8 where "b8 = copy_to b7 56 (PutUint16 (Flags f))"
  define b9 where "b9 = copy_to b8 58 (Data f)"
  define b10 where "b10 = copy_to b9 (58 + ?d) (PutUint32 (CRC f))"
  define b11 where "b11 = copy_to b10 (58 + ?d + 4) (Footer f)"
  have S: "Serialize f = b11"
    by (simp only: Serialize_def Let_def b0_def b1_def b2_def b3_def b4_def b5_def b6_def
        b7_def b8_def b9_def b10_def b11_def)
  have e0: "b0 = [] @ replicate (70 + ?d) 0"
    by (simp add: b0_def)
  have e1: "b1 = Header f @ replicate (62 + ?d) 0"
    unfolding b1_def e0 by (subst copy_to_fill) (simp_all add: assms)
  have e2: "b2 = (Header f @ PutUint32 (SlotID f)) @ replicate (58 + ?d) 0"
    unfolding b2_def e1 by (subst copy_to_fill) (simp_all add: assms length_PutUint32)
  have e3: "b3 = (Header f @ PutUint32 (SlotID f) @ NodeID f) @ replicate (26 + ?d) 0"
    unfolding b3_def e2 by (subst copy_to_fill) (simp_all add: assms length_PutUint32)
  have e4: "b4 = (Header f @ PutUint32 (SlotID f) @ NodeID f @ PutUint32 (Length f))
                 @ replicate (22 + ?d) 0"
    unfolding b4_def e3 by (subst copy_to_fill) (simp_all add: assms length_PutUint32)
  have e5: "b5 = (Header f @ PutUint32 (SlotID f) @ NodeID f @ PutUint32 (Length f) @
                  PutUint32 (FragmentID f)) @ replicate (18 + ?d) 0"
    unfolding b5_def e4 by (subst copy_to_fill) (simp_all add: assms length_PutUint32)
  have e6: "b6 = (Header f @ PutUint32 (SlotID f) @ NodeID f @ PutUint32 (Length f) @
                  PutUint32 (FragmentID f) @ PutUint16 (TotalFrags f)) @ replicate (16 + ?d) 0"
    unfolding b6_def e5
    by (subst copy_to_fill) (simp_all add: assms length_PutUint32 length_PutUint16)
  have e7: "b7 = (Header f @ PutUint32 (SlotID f) @ NodeID f @ PutUint32 (Length f) @
                  PutUint32 (FragmentID f) @ PutUint16 (TotalFrags f) @
                  PutUint16 (FragIndex f)) @ replicate (14 + ?d) 0"
    unfolding b7_def e6
    by (subst copy_to_fill) (simp_all add: assms length_PutUint32 length_PutUint16)
  have e8: "b8 = (Header f @ PutUint32 (SlotID f) @ NodeID f @ PutUint32 (Length f) @
                  PutUint32 (FragmentID f) @ PutUint16 (TotalFrags f) @
                  PutUint16 (FragIndex f) @ PutUint16 (Flags f)) @ replicate (12 + ?d) 0"
    unfolding b8_def e7
    by (subst copy_to_fill) (simp_all add: assms length_PutUint32 length_PutUint16)
  have e9: "b9 = (Header f @ PutUint32 (SlotID f) @ NodeID f @ PutUint32 (Length f) @
                  PutUint32 (FragmentID f) @ PutUint16 (TotalFrags f) @
                  PutUint16 (FragIndex f) @ PutUint16 (Flags f) @ Data f) @ replicate 12 0"
    unfolding b9_def e8
    by (subst copy_to_fill) (simp_all add: assms length_PutUint32 length_PutUint16)
  have e10: "b10 = (Header f @ PutUint32 (SlotID f) @ NodeID f @ PutUint32 (Length f) @
                  PutUint32 (FragmentID f) @ PutUint16 (TotalFrags f) @
                  PutUint16 (FragIndex f) @ PutUint16 (Flags f) @ Data f @
                  PutUint32 (CRC f)) @ replicate 8 0"
    unfolding b10_def e9
    by (subst copy_to_fill) (simp_all add: assms length_PutUint32 length_PutUint16)
  have e11: "b11 = (Header f @ PutUint32 (SlotID f) @ NodeID f @ PutUint32 (Length f) @
                  PutUint32 (FragmentID f) @ PutUint16 (TotalFrags f) @
                  PutUint16 (FragIndex f) @ PutUint16 (Flags f) @ Data f @
                  PutUint32 (CRC f) @ Footer f) @ replicate 0 0"
    unfolding b11_def e10
    by (subst copy_to_fill) (simp_all add: assms length_PutUint32 length_PutUint16)
  show ?thesis
    unfolding S e11 by simp
qed

lemma slice_ok: "lo \<le> hi \<Longrightarrow> hi \<le> length b \<Longrightarrow> slice b lo hi = Inr (take (hi - lo) (drop lo b))"
  by (simp add: slice_def)

lemma Uint32_ok: "4 \<le> length b \<Longrightarrow> Uint32 b = Inr (join32 (b ! 0) (b ! 1) (b ! 2) (b ! 3))"
  by (simp add: Uint32_nth)

lemma Uint16_ok: "2 \<le> length b \<Longrightarrow> Uint16 b = Inr (join16 (b ! 0) (b ! 1))"
  by (simp add: Uint16_nth)

lemma and_then_Inr: "and_then (Inr x) k = k x"
  by (simp add: and_then_def)

lemma and_then_Inl: "and_then (Inl e) k = Inl e"
  by (simp add: and_then_def)

lemma Deserialize_header_fields:
  assumes "60 \<le> length data"
  shows "DeserializeTDMAFrame data =
     (let len = join32 (data ! 44) (data ! 45) (data ! 46) (data ! 47) in
      if 58 + unat len + 12 > length data then Inl LengthMismatch
      else Inr (frame_at data len))"
  using assms
  by (simp add: DeserializeTDMAFrame_def slice_ok Uint32_ok Uint16_ok and_then_Inr Let_def
      frame_at_def add.commute)

lemma Validate_ok_iff:
  "Validate f = Inr () \<longleftrightarrow>
     Header f = FRAME_HEADER \<and> Footer f = FRAME_FOOTER \<and> calculateCRC f = CRC f \<and>
     Length f = of_nat (length (Data f))"
  by (auto simp: Validate_def)

lemma calculateCRC_cong:
  "Header f = Header g \<Longrightarrow> SlotID f = SlotID g \<Longrightarrow> TotalFrags f = TotalFrags g \<Longrightarrow>
   FragIndex f = FragIndex g \<Longrightarrow> Flags f = Flags g \<Longrightarrow> Data f = Data g \<Longrightarrow>
   calculateCRC f = calculateCRC g"
  by (simp add: calculateCRC_def)

text \<open>
  Claim C9. The checksum reads the header, \<open>SlotID\<close>, \<open>TotalFrags\<close>, \<open>FragIndex\<close>,
  \<open>Flags\<close> and the payload only: two frames that agree on these have the same checksum,
  whatever their \<open>NodeID\<close>, \<open>Length\<close> and \<open>FragmentID\<close>. Hence, if a frame passes
  \<open>Validate\<close>, so does every frame that differs from it in \<open>NodeID\<close> and \<open>FragmentID\<close>
  only.
\<close>

theorem crc_ignores_node_and_fragment_id:
  assumes "Header f = Header g" and "SlotID f = SlotID g" and "TotalFrags f = TotalFrags g"
    and "FragIndex f = FragIndex g" and "Flags f = Flags g" and "Data f = Data g"
  shows "calculateCRC f = calculateCRC g \<and>
         (Validate f = Inr () \<and> Length g = Length f \<and> CRC g = CRC f \<and> Footer g = Footer f
            \<longrightarrow> Validate g = Inr ())"
proof (intro conjI impI)
  show crc: "calculateCRC f = calculateCRC g"
    using assms by (rule calculateCRC_cong)
  assume "Validate f = Inr () \<and> Length g = Length f \<and> CRC g = CRC f \<and> Footer g = Footer f"
  with assms crc show "Validate g = Inr ()"
    by (simp add: Validate_ok_iff)
qed

lemma calculateCRC_NewTDMAFrame:
  "CRC (NewTDMAFrame s n d) = calculateCRC (NewTDMAFrame s n d)"
  by (simp add: NewTDMAFrame_def Let_def calculateCRC_def)

lemma length_node_id_bytes: "length (node_id_bytes n) = 32"
  by (simp add: node_id_bytes_def length_copy_to)

lemma Validate_NewTDMAFrame:
  "Validate (NewTDMAFrame s n d) = Inr ()"
  by (simp add: Validate_ok_iff calculateCRC_NewTDMAFrame) (simp add: NewTDMAFrame_def Let_def)

theorem crc_ignores_node_and_fragment_id_witness:
  "Validate (NewTDMAFrame 3 ''GS1'' [1, 2]) = Inr () \<and>
   NodeID ((NewTDMAFrame 3 ''GS1'' [1, 2])\<lparr>NodeID := 88 # replicate 31 0, FragmentID := 9\<rparr>)
     \<noteq> NodeID (NewTDMAFrame 3 ''GS1'' [1, 2]) \<and>
   FragmentID ((NewTDMAFrame 3 ''GS1'' [1, 2])\<lparr>NodeID := 88 # replicate 31 0, FragmentID := 9\<rparr>)
     \<noteq> FragmentID (NewTDMAFrame 3 ''GS1'' [1, 2]) \<and>
   calculateCRC ((NewTDMAFrame 3 ''GS1'' [1, 2])\<lparr>NodeID := 88 # replicate 31 0, FragmentID := 9\<rparr>)
     = calculateCRC (NewTDMAFrame 3 ''GS1'' [1, 2]) \<and>
   Validate ((NewTDMAFrame 3 ''GS1'' [1, 2])\<lparr>NodeID := 88 # replicate 31 0, FragmentID := 9\<rparr>) = Inr ()"
proof -
  let ?f = "NewTDMAFrame 3 ''GS1'' [1, 2]"
  let ?g = "?f\<lparr>NodeID := 88 # replicate 31 0, FragmentID := 9\<rparr>"
  have v: "Validate ?f = Inr ()"
    by (rule Validate_NewTDMAFrame)
  have n: "NodeID ?g \<noteq> NodeID ?f"
    by (simp add: NewTDMAFrame_def node_id_bytes_def copy_to_def Let_def)
  have i: "FragmentID ?g \<noteq> FragmentID ?f"
    by (simp add: NewTDMAFrame_def Let_def)
  have "calculateCRC ?f = calculateCRC ?g \<and>
        (Validate ?f = Inr () \<and> Length ?g = Length ?f \<and> CRC ?g = CRC ?f \<and> Footer ?g = Footer ?f
           \<longrightarrow> Validate ?g = Inr ())"
    by (rule crc_ignores_node_and_fragment_id) simp_all
  with v have "calculateCRC ?g = calculateCRC ?f" and "Validate ?g = Inr ()"
    by simp_all
  with v n i show ?thesis
    by blast
qed

lemma Deserialize_TooShort_iff:
  "DeserializeTDMAFrame data = Inl TooShort \<longleftrightarrow> length data < 60"
proof (cases "length data < 60")
  case True
  then show ?thesis by (simp add: DeserializeTDMAFrame_def)
next
  case False
  then have "60 \<le> length data" by simp
  from Deserialize_header_fields [OF this] False show ?thesis
    by (simp add: Let_def)
qed

text \<open>
  Claim C3, as the code has it. The fixed part of an encoded frame is 70 bytes, not 60:
  \<open>Serialize f\<close> has \<open>70 + length (Data f)\<close> bytes. \<open>DeserializeTDMAFrame\<close> fails with
  \<open>TooShort\<close> exactly when the input has fewer than 60 bytes, and an input of 60 to 69
  bytes is rejected with \<open>LengthMismatch\<close>.
\<close>

theorem encoded_size_and_too_short:
  "length (Serialize f) = 70 + length (Data f) \<and>
   (DeserializeTDMAFrame data = Inl TooShort \<longleftrightarrow> length data < 60) \<and>
   (60 \<le> length data \<and> length data < 70 \<longrightarrow> DeserializeTDMAFrame data = Inl LengthMismatch)"
proof (intro conjI impI)
  show "length (Serialize f) = 70 + length (Data f)"
    by (rule length_Serialize)
  show "DeserializeTDMAFrame data = Inl TooShort \<longleftrightarrow> length data < 60"
    by (rule Deserialize_TooShort_iff)
  assume "60 \<le> length data \<and> length data < 70"
  then show "DeserializeTDMAFrame data = Inl LengthMismatch"
    by (simp add: Deserialize_header_fields Let_def)
qed

theorem encoded_size_and_too_short_witness:
  "60 \<le> length (replicate 65 (0::byte)) \<and> length (replicate 65 (0::byte)) < 70 \<and>
   DeserializeTDMAFrame (replicate 65 0) = Inl LengthMismatch"
  using encoded_size_and_too_short [of undefined "replicate 65 0"]
  by simp

text \<open>
  Claim C3 as stated fails: the encoding of a frame with an empty payload does not have
  \<open>60 + 0\<close> bytes.
\<close>

theorem encoded_size_60_counterexample:
  "length (Serialize (NewTDMAFrame 0 [] [])) \<noteq> 60 + length (Data (NewTDMAFrame 0 [] []))"
  by (simp add: length_Serialize)

lemma frame_at_append:
  "70 + unat len \<le> length data \<Longrightarrow> frame_at (data @ extra) len = frame_at data len"
  by (simp add: frame_at_def nth_append)

lemma frame_at_take:
  "70 + unat len \<le> length data \<Longrightarrow>
   frame_at (take (70 + unat len) data) len = frame_at data len"
  by (simp add: frame_at_def drop_take)

text \<open>
  Claim C10. A buffer of at least 60 bytes whose length field \<open>len\<close> satisfies
  \<open>58 + len + 12 \<le> length data\<close> is decoded successfully, and the bytes after the frame
  do not matter: the buffer with any bytes appended, and the buffer cut down to the frame,
  decode to the same frame.
\<close>

theorem decode_tolerates_trailing_bytes:
  assumes "60 \<le> length data" and "Uint32 (drop 44 data) = Inr len"
    and "58 + unat len + 12 \<le> length data"
  shows "\<exists>f. DeserializeTDMAFrame data = Inr f \<and>
             DeserializeTDMAFrame (data @ extra) = Inr f \<and>
             DeserializeTDMAFrame (take (58 + unat len + 12) data) = Inr f"
proof -
  have len: "len = join32 (data ! 44) (data ! 45) (data ! 46) (data ! 47)"
    using assms(1,2) by (simp add: Uint32_ok add.commute)
  have 1: "DeserializeTDMAFrame data = Inr (frame_at data len)"
    using assms(3) by (simp add: Deserialize_header_fields [OF assms(1)] len [symmetric])
  have "60 \<le> length (data @ extra)" using assms(1) by simp
  from Deserialize_header_fields [OF this]
  have 2: "DeserializeTDMAFrame (data @ extra) = Inr (frame_at data len)"
    using assms(1,3) by (simp add: nth_append len [symmetric] frame_at_append)
  have "60 \<le> length (take (58 + unat len + 12) data)" using assms(1,3) by simp
  from Deserialize_header_fields [OF this]
  have 3: "DeserializeTDMAFrame (take (58 + unat len + 12) data) = Inr (frame_at data len)"
    using assms(1,3) by (simp add: len [symmetric] frame_at_take)
  from 1 2 3 show ?thesis by blast
qed

theorem decode_tolerates_trailing_bytes_witness:
  "60 \<le> length (replicate 44 0 @ [0, 0, 0, 2] @ replicate 30 (0::byte)) \<and>
   Uint32 (drop 44 (replicate 44 0 @ [0, 0, 0, 2] @ replicate 30 0)) = Inr 2 \<and>
   58 + unat (2 :: 32 word) + 12 \<le> length (replicate 44 0 @ [0, 0, 0, 2] @ replicate 30 (0::byte)) \<and>
   (\<exists>f. DeserializeTDMAFrame (replicate 44 0 @ [0, 0, 0, 2] @ replicate 30 0) = Inr f \<and>
        DeserializeTDMAFrame ((replicate 44 0 @ [0, 0, 0, 2] @ replicate 30 0) @ [1, 2, 3]) = Inr f \<and>
        DeserializeTDMAFrame (take (58 + unat (2 :: 32 word) + 12)
                               (replicate 44 0 @ [0, 0, 0, 2] @ replicate 30 0)) = Inr f)"
proof -
  let ?d = "replicate 44 0 @ [0, 0, 0, 2] @ replicate 30 (0::byte)"
  have 1: "60 \<le> length ?d" by simp
  have 2: "Uint32 (drop 44 ?d) = Inr 2" by (simp add: join32_def)
  have 3: "58 + unat (2 :: 32 word) + 12 \<le> length ?d" by simp
  from decode_tolerates_trailing_bytes [OF 1 2 3, of "[1, 2, 3]"] 1 2 3 show ?thesis
    by blast
qed

lemma Deserialize_layout:
  assumes "length h = 8" "length n = 32" "length ft = 8" "unat l = length d"
  shows "DeserializeTDMAFrame
           (h @ PutUint32 s @ n @ PutUint32 l @ PutUint32 g @ PutUint16 t @ PutUint16 i @
            PutUint16 fl @ d @ PutUint32 c @ ft) =
         Inr \<lparr>Header = h, SlotID = s, NodeID = n, Length = l, FragmentID = g, TotalFrags = t,
              FragIndex = i, Flags = fl, Data = d, CRC = c, Footer = ft\<rparr>"
  using assms
  by (simp add: DeserializeTDMAFrame_def slice_def and_then_def Uint32_PutUint32
      Uint16_PutUint16 length_PutUint32 length_PutUint16 Let_def)

text \<open>
  Claim C1. For a well-formed frame (both sentinels, \<open>Length\<close> equal to the number of
  payload bytes, \<open>CRC\<close> equal to the recomputed checksum; \<open>NodeID\<close> is a 32-byte array),
  deserializing the serialized frame gives back the frame, equal in every field.
\<close>

theorem serialize_deserialize_roundtrip:
  assumes "Header f = FRAME_HEADER" and "Footer f = FRAME_FOOTER"
    and "unat (Length f) = length (Data f)" and "CRC f = calculateCRC f"
    and "length (NodeID f) = 32"
  shows "DeserializeTDMAFrame (Serialize f) = Inr f"
proof -
  have h: "length (Header f) = 8" and ft: "length (Footer f) = 8"
    using assms(1,2) by (simp_all add: FRAME_HEADER_def FRAME_FOOTER_def)
  show ?thesis
    unfolding Serialize_layout [OF h assms(5) ft]
    by (subst Deserialize_layout [OF h assms(5) ft assms(3)]) simp
qed

theorem serialize_deserialize_roundtrip_witness:
  "Header (NewTDMAFrame 3 ''GS1'' [1, 2]) = FRAME_HEADER \<and>
   Footer (NewTDMAFrame 3 ''GS1'' [1, 2]) = FRAME_FOOTER \<and>
   unat (Length (NewTDMAFrame 3 ''GS1'' [1, 2])) = length (Data (NewTDMAFrame 3 ''GS1'' [1, 2])) \<and>
   CRC (NewTDMAFrame 3 ''GS1'' [1, 2]) = calculateCRC (NewTDMAFrame 3 ''GS1'' [1, 2]) \<and>
   length (NodeID (NewTDMAFrame 3 ''GS1'' [1, 2])) = 32 \<and>
   DeserializeTDMAFrame (Serialize (NewTDMAFrame 3 ''GS1'' [1, 2])) = Inr (NewTDMAFrame 3 ''GS1'' [1, 2])"
proof -
  let ?f = "NewTDMAFrame 3 ''GS1'' [1, 2]"
  have 1: "Header ?f = FRAME_HEADER" by (simp add: NewTDMAFrame_def Let_def)
  have 2: "Footer ?f = FRAME_FOOTER" by (simp add: NewTDMAFrame_def Let_def)
  have 3: "unat (Length ?f) = length (Data ?f)" by (simp add: NewTDMAFrame_def Let_def)
  have 4: "CRC ?f = calculateCRC ?f" by (rule calculateCRC_NewTDMAFrame)
  have 5: "length (NodeID ?f) = 32" by (simp add: NewTDMAFrame_def Let_def length_node_id_bytes)
  from serialize_deserialize_roundtrip [OF 1 2 3 4 5] 1 2 3 4 5 show ?thesis
    by blast
qed

lemma unat_of_nat32: "unat (of_nat n :: 32 word) = n mod 2 ^ 32"
  by (simp add: unat_of_nat)

lemma Length_eq_iff:
  "(Length f = (of_nat (length (Data f)) :: 32 word)) \<longleftrightarrow>
   unat (Length f) = length (Data f) mod 2 ^ 32"
  by (simp add: word_unat_eq_iff unat_of_nat32)

text \<open>
  What \<open>Validate\<close> checks. It compares the length field with \<open>uint32(len(Data))\<close>, the
  payload length cut to 32 bits: it succeeds if and only if both sentinels match, the
  recomputed checksum is the stored one and \<open>Length\<close> equals the payload length modulo
  \<open>2^32\<close>, which for a payload shorter than \<open>2^32\<close> bytes is the payload length. The
  checks run in this order and the first that fails gives the error: four different
  errors.
\<close>

theorem validate_characterisation:
  "(Validate f = Inr () \<longleftrightarrow>
      Header f = FRAME_HEADER \<and> Footer f = FRAME_FOOTER \<and> calculateCRC f = CRC f \<and>
      unat (Length f) = length (Data f) mod 2 ^ 32) \<and>
   (length (Data f) < 2 ^ 32 \<longrightarrow>
      (Validate f = Inr () \<longleftrightarrow>
         Header f = FRAME_HEADER \<and> Footer f = FRAME_FOOTER \<and> calculateCRC f = CRC f \<and>
         unat (Length f) = length (Data f))) \<and>
   (Validate f = Inl InvalidHeader \<longleftrightarrow> Header f \<noteq> FRAME_HEADER) \<and>
   (Validate f = Inl InvalidFooter \<longleftrightarrow> Header f = FRAME_HEADER \<and> Footer f \<noteq> FRAME_FOOTER) \<and>
   (Validate f = Inl ChecksumMismatch \<longleftrightarrow>
      Header f = FRAME_HEADER \<and> Footer f = FRAME_FOOTER \<and> calculateCRC f \<noteq> CRC f) \<and>
   (Validate f = Inl LengthMismatch \<longleftrightarrow>
      Header f = FRAME_HEADER \<and> Footer f = FRAME_FOOTER \<and> calculateCRC f = CRC f \<and>
      unat (Length f) \<noteq> length (Data f) mod 2 ^ 32)"
proof -
  have L: "((of_nat (length (Data f)) :: 32 word) \<noteq> Length f) \<longleftrightarrow>
           unat (Length f) \<noteq> length (Data f) mod 2 ^ 32"
    using Length_eq_iff [of f] by auto
  show ?thesis
    unfolding Validate_def L by auto
qed

text \<open>
  Claim C7, at a payload of \<open>2^32\<close> bytes. The claim asks that a frame passes \<open>Validate\<close>
  only if its \<open>Length\<close> field is the number of payload bytes. The frame that
  \<^verbatim>\<open>NewTDMAFrame\<close> builds around \<open>2^32\<close> payload bytes passes, although its \<open>Length\<close>
  field is 0: the cast \<open>uint32(len(Data))\<close> in the length check cuts the payload length
  to 32 bits.
\<close>

theorem validate_accepts_oversized_payload:
  "Validate oversized_frame = Inr () \<and>
   Length oversized_frame = 0 \<and> length (Data oversized_frame) = 2 ^ 32 \<and>
   unat (Length oversized_frame) \<noteq> length (Data oversized_frame)"
  unfolding oversized_frame_def
  by (simp add: Validate_NewTDMAFrame) (simp add: NewTDMAFrame_def Let_def)

section \<open>The scheduler\<close>

text \<open>
  Claim C2. A scheduler of ten one-second slots reaches current slot 3 after three ticks.
  There, with all slots free, \<open>AllocateTimeSlot\<close> for "A" returns 3, then for "B" returns
  4; after \<open>ReleaseTimeSlot 3\<close>, \<open>AllocateTimeSlot\<close> for "C" returns 3 again, at whatever
  instants the calls are made.
\<close>

theorem concrete_scenario:
  "ticks 3 (NewTDMAScheduler 10 1000000000 t0) = Inr (scenario_start t0) \<and>
   (let s0 = scenario_start t0;
        (r1, s1) = AllocateTimeSlot s0 ''A'' 1 t1;
        (r2, s2) = AllocateTimeSlot s1 ''B'' 1 t2;
        (r3, s3) = ReleaseTimeSlot s2 3;
        (r4, s4) = AllocateTimeSlot s3 ''C'' 1 t3
    in r1 = Inr 3 \<and> r2 = Inr 4 \<and> r3 = Inr () \<and> r4 = Inr 3)"
proof -
  have t: "ticks 3 (NewTDMAScheduler 10 1000000000 t0) = Inr (scenario_start t0)"
    by (simp add: numeral_3_eq_3 tick_def and_then_def scenario_start_def NewTDMAScheduler_def
        signed_modulo_int_def)
  have a: "(let s0 = scenario_start t0;
        (r1, s1) = AllocateTimeSlot s0 ''A'' 1 t1;
        (r2, s2) = AllocateTimeSlot s1 ''B'' 1 t2;
        (r3, s3) = ReleaseTimeSlot s2 3;
        (r4, s4) = AllocateTimeSlot s3 ''C'' 1 t3
    in r1 = Inr 3 \<and> r2 = Inr 4 \<and> r3 = Inr () \<and> r4 = Inr 3)"
    by (simp add: scenario_start_def NewTDMAScheduler_def AllocateTimeSlot_def
        init_slots.simps own_slot.simps take_if_free_def put_slot_def assign_def
        ReleaseTimeSlot_def signed_modulo_int_def)
  from t a show ?thesis by (rule conjI)
qed

lemma smod_nonneg: "0 \<le> a \<Longrightarrow> 0 < n \<Longrightarrow> (a::int) smod n = a mod n"
  by (simp add: signed_modulo_int_def sgn_if)

lemma own_slot_end: "\<not> i < totalSlots s \<Longrightarrow> own_slot nodeID now i s = (Inr None, s)"
  by (simp add: own_slot.simps [of nodeID now i s])

lemma own_slot_nil:
  "i < totalSlots s \<Longrightarrow> slots s i = None \<Longrightarrow> own_slot nodeID now i s = (Inl NilDereference, s)"
  by (simp add: own_slot.simps [of nodeID now i s])

lemma own_slot_fresh:
  "i < totalSlots s \<Longrightarrow> slots s i = Some sl \<Longrightarrow>
   slot_NodeID sl = nodeID \<and> slot_Status sl = ''ASSIGNED'' \<Longrightarrow>
   time_Since now (slot_StartTime sl) <s slotDuration s * 10 \<Longrightarrow>
   own_slot nodeID now i s = (Inr (Some i), s)"
  by (simp add: own_slot.simps [of nodeID now i s])

lemma own_slot_expired:
  "i < totalSlots s \<Longrightarrow> slots s i = Some sl \<Longrightarrow>
   slot_NodeID sl = nodeID \<and> slot_Status sl = ''ASSIGNED'' \<Longrightarrow>
   \<not> time_Since now (slot_StartTime sl) <s slotDuration s * 10 \<Longrightarrow>
   own_slot nodeID now i s =
     own_slot nodeID now (i + 1) (put_slot s i (sl\<lparr>slot_Status := ''FREE'', slot_NodeID := []\<rparr>))"
  by (simp add: own_slot.simps [of nodeID now i s])

lemma own_slot_other:
  "i < totalSlots s \<Longrightarrow> slots s i = Some sl \<Longrightarrow>
   \<not> (slot_NodeID sl = nodeID \<and> slot_Status sl = ''ASSIGNED'') \<Longrightarrow>
   own_slot nodeID now i s = own_slot nodeID now (i + 1) s"
  by (subst own_slot.simps) auto

lemma own_slot_fields:
  "own_slot nodeID now i s = (r, s1) \<Longrightarrow>
   totalSlots s1 = totalSlots s \<and> currentSlot s1 = currentSlot s \<and>
   slotDuration s1 = slotDuration s \<and> startTime s1 = startTime s \<and>
   r \<noteq> Inl NoSlotAvailable"
proof (induction nodeID now i s arbitrary: r s1 rule: own_slot.induct)
  case (1 nodeID now i s)
  show ?case
  proof (cases "i < totalSlots s")
    case False
    with "1.prems" show ?thesis by (auto simp: own_slot_end)
  next
    case True
    show ?thesis
    proof (cases "slots s i")
      case None
      with True "1.prems" show ?thesis by (auto simp: own_slot_nil)
    next
      case (Some sl)
      show ?thesis
      proof (cases "slot_NodeID sl = nodeID \<and> slot_Status sl = ''ASSIGNED''")
        case False
        from "1.prems" have "own_slot nodeID now (i + 1) s = (r, s1)"
          by (simp add: own_slot_other [OF True Some False])
        from "1.IH"(2) [OF True Some False this] show ?thesis .
      next
        case own: True
        show ?thesis
        proof (cases "time_Since now (slot_StartTime sl) <s slotDuration s * 10")
          case True
          with "1.prems" show ?thesis
            by (auto simp: own_slot_fresh [OF \<open>i < totalSlots s\<close> Some own True])
        next
          case False
          from "1.prems"
          have "own_slot nodeID now (i + 1)
                  (put_slot s i (sl\<lparr>slot_Status := ''FREE'', slot_NodeID := []\<rparr>)) = (r, s1)"
            by (simp add: own_slot_expired [OF \<open>i < totalSlots s\<close> Some own False])
          from "1.IH"(1) [OF \<open>i < totalSlots s\<close> Some own False this] show ?thesis
            by (simp add: put_slot_def)
        qed
      qed
    qed
  qed
qed

lemma own_slot_changed:
  "own_slot nodeID now i s = (r, s1) \<Longrightarrow>
   s1 = s \<or> (\<exists>k. i \<le> k \<and> k < totalSlots s \<and> free_at s1 k)"
proof (induction nodeID now i s arbitrary: r s1 rule: own_slot.induct)
  case (1 nodeID now i s)
  show ?case
  proof (cases "i < totalSlots s")
    case False
    with "1.prems" show ?thesis by (auto simp: own_slot_end)
  next
    case True
    show ?thesis
    proof (cases "slots s i")
      case None
      with True "1.prems" show ?thesis by (auto simp: own_slot_nil)
    next
      case (Some sl)
      show ?thesis
      proof (cases "slot_NodeID sl = nodeID \<and> slot_Status sl = ''ASSIGNED''")
        case False
        from "1.prems" have "own_slot nodeID now (i + 1) s = (r, s1)"
          by (simp add: own_slot_other [OF True Some False])
        from "1.IH"(2) [OF True Some False this] show ?thesis
          by force
      next
        case own: True
        show ?thesis
        proof (cases "time_Since now (slot_StartTime sl) <s slotDuration s * 10")
          case True
          with "1.prems" show ?thesis
            by (auto simp: own_slot_fresh [OF \<open>i < totalSlots s\<close> Some own True])
        next
          case False
          let ?s' = "put_slot s i (sl\<lparr>slot_Status := ''FREE'', slot_NodeID := []\<rparr>)"
          from "1.prems"
          have run: "own_slot nodeID now (i + 1) ?s' = (r, s1)"
            by (simp add: own_slot_expired [OF \<open>i < totalSlots s\<close> Some own False])
          have N: "totalSlots ?s' = totalSlots s"
            by (simp add: put_slot_def)
          from "1.IH"(1) [OF \<open>i < totalSlots s\<close> Some own False run]
          consider "s1 = ?s'" | k where "i + 1 \<le> k" "k < totalSlots s" "free_at s1 k"
            unfolding N by blast
          then show ?thesis
          proof cases
            case 1
            then have "free_at s1 i"
              by (simp add: free_at_def slot_free_def put_slot_def)
            with \<open>i < totalSlots s\<close> show ?thesis by blast
          next
            case 2
            then show ?thesis by force
          qed
        qed
      qed
    qed
  qed
qed

lemma scan_free_None:
  "scan_free s nodeID now cur offset = None \<Longrightarrow> offset \<le> k \<Longrightarrow> k < totalSlots s \<Longrightarrow>
   \<not> free_at s ((cur + k) smod totalSlots s)"
proof (induction s nodeID now cur offset rule: scan_free.induct)
  case (1 s nodeID now cur offset)
  from "1.prems"(2,3) have lt: "offset < totalSlots s" by simp
  let ?id = "(cur + offset) smod totalSlots s"
  from "1.prems"(1) lt obtain sl where sl: "slots s ?id = Some sl" "slot_Status sl \<noteq> ''FREE''"
    and rest: "scan_free s nodeID now cur (offset + 1) = None"
    by (simp add: scan_free.simps [of s nodeID now cur offset] Let_def
        split: option.splits if_splits)
  show ?case
  proof (cases "k = offset")
    case True
    with sl show ?thesis by (simp add: free_at_def slot_free_def)
  next
    case False
    with "1.prems" have "offset + 1 \<le> k" by simp
    from "1.IH" [OF lt refl sl(1) sl(2) rest this "1.prems"(3)] show ?thesis .
  qed
qed

lemma scan_free_not_exhausted:
  "scan_free s nodeID now cur offset = Some (r, s') \<Longrightarrow> r \<noteq> Inl NoSlotAvailable"
proof (induction s nodeID now cur offset rule: scan_free.induct)
  case (1 s nodeID now cur offset)
  then show ?case
    by (auto simp: scan_free.simps [of s nodeID now cur offset] Let_def
        split: option.splits if_splits)
qed

lemma reuse_oldest_exhausted:
  "reuse_oldest s nodeID now = (Inl NoSlotAvailable, s') \<Longrightarrow> s' = s"
  by (auto simp: reuse_oldest_def split: sum.splits prod.splits if_splits option.splits)

lemma scan_ring_exhausted:
  assumes "scan_ring s nodeID now = (Inl NoSlotAvailable, s')"
  shows "s' = s \<and> scan_free s nodeID now (currentSlot s) 2 = None"
proof (cases "scan_free s nodeID now (currentSlot s) 2")
  case None
  with assms show ?thesis
    by (simp add: scan_ring_def reuse_oldest_exhausted)
next
  case (Some a)
  obtain r s2 where "a = (r, s2)" by (cases a)
  with Some assms scan_free_not_exhausted [of s nodeID now "currentSlot s" 2 r s2]
  show ?thesis by (simp add: scan_ring_def)
qed

lemma take_if_free_exhausted:
  "take_if_free s k nodeID now other = (Inl NoSlotAvailable, s') \<Longrightarrow>
   \<not> free_at s k \<and> other = (Inl NoSlotAvailable, s')"
  by (auto simp: take_if_free_def free_at_def slot_free_def split: option.splits if_splits)

lemma ring_cover:
  assumes "0 \<le> cur" "cur < n" "0 \<le> k" "k < (n::int)"
  obtains off where "0 \<le> off" "off < n" "(cur + off) smod n = k"
proof
  let ?off = "(k - cur) mod n"
  from assms show "0 \<le> ?off" "?off < n" by simp_all
  from assms have "(cur + ?off) smod n = (cur + ?off) mod n"
    by (intro smod_nonneg) simp_all
  also have "\<dots> = k" using assms by (simp add: mod_add_right_eq)
  finally show "(cur + ?off) smod n = k" .
qed

text \<open>
  Claim C5. In a scheduler whose current slot lies in the table, a call of
  \<open>AllocateTimeSlot\<close> that fails with \<open>NoSlotAvailable\<close> returns the state it was given:
  no status, owner or start time has changed.
\<close>

theorem allocate_failure_leaves_table:
  assumes inv: "0 \<le> currentSlot s" "currentSlot s < totalSlots s"
    and fail: "AllocateTimeSlot s nodeID priority now = (Inl NoSlotAvailable, s')"
  shows "s' = s"
proof -
  obtain r1 s1 where own: "own_slot nodeID now 0 s = (r1, s1)"
    by (cases "own_slot nodeID now 0 s")
  from own_slot_fields [OF own] inv
  have inv1: "0 \<le> currentSlot s1" "currentSlot s1 < totalSlots s1"
    and N: "totalSlots s1 = totalSlots s" by simp_all
  from fail own own_slot_fields [OF own] have r1: "r1 = Inr None"
    by (auto simp: AllocateTimeSlot_def split: sum.splits option.splits if_splits)
  from inv1 have nz: "totalSlots s1 \<noteq> 0" by simp
  let ?cur = "currentSlot s1" and ?N = "totalSlots s1"
  from fail own r1 nz
  have chain: "take_if_free s1 ?cur nodeID now
                 (take_if_free s1 ((?cur + 1) smod ?N) nodeID now (scan_ring s1 nodeID now))
               = (Inl NoSlotAvailable, s')"
    by (simp add: AllocateTimeSlot_def)
  from take_if_free_exhausted [OF chain]
  have c: "\<not> free_at s1 ?cur"
    and chain2: "take_if_free s1 ((?cur + 1) smod ?N) nodeID now (scan_ring s1 nodeID now)
                 = (Inl NoSlotAvailable, s')"
    by simp_all
  from take_if_free_exhausted [OF chain2]
  have n: "\<not> free_at s1 ((?cur + 1) smod ?N)"
    and ring: "scan_ring s1 nodeID now = (Inl NoSlotAvailable, s')"
    by simp_all
  from scan_ring_exhausted [OF ring]
  have same: "s' = s1" and none: "scan_free s1 nodeID now ?cur 2 = None"
    by simp_all
  have nofree: "\<not> free_at s1 k" if k: "0 \<le> k" "k < ?N" for k
  proof -
    from ring_cover [OF inv1 k] obtain off
      where off: "0 \<le> off" "off < ?N" "(?cur + off) smod ?N = k" by blast
    consider "off = 0" | "off = 1" | "2 \<le> off" using off(1) by linarith
    then show ?thesis
    proof cases
      case 1
      with off(3) inv1 have "k = ?cur" by (simp add: smod_nonneg)
      with c show ?thesis by simp
    next
      case 2
      with off(3) n show ?thesis by simp
    next
      case 3
      from scan_free_None [OF none 3 off(2)] off(3) show ?thesis by simp
    qed
  qed
  from own_slot_changed [OF own] nofree N have "s1 = s"
    by auto
  with same show ?thesis by simp
qed

lemma window_free_result:
  "window_free m i j count = Inr b \<Longrightarrow> b = (\<forall>k\<in>{j..<count}. slot_free m (i + k))"
proof (induction m i j count rule: window_free.induct)
  case (1 m i j count)
  show ?case
  proof (cases "j < count")
    case False
    with "1.prems" show ?thesis by (simp add: window_free.simps [of m i j count])
  next
    case True
    from True "1.prems" obtain sl where sl: "m (i + j) = Some sl"
      by (auto simp: window_free.simps [of m i j count] split: option.splits)
    show ?thesis
    proof (cases "slot_Status sl \<noteq> ''FREE''")
      case notfree: True
      with True sl "1.prems" have "b = False"
        by (simp add: window_free.simps [of m i j count])
      moreover from notfree sl True have "\<not> (\<forall>k\<in>{j..<count}. slot_free m (i + k))"
        by (auto simp: slot_free_def intro!: bexI [of _ j])
      ultimately show ?thesis by simp
    next
      case False
      with True sl "1.prems" have "window_free m i (j + 1) count = Inr b"
        by (simp add: window_free.simps [of m i j count])
      from "1.IH" [OF True sl False this]
      have b: "b = (\<forall>k\<in>{j + 1..<count}. slot_free m (i + k))" .
      from False sl have fj: "slot_free m (i + j)" by (simp add: slot_free_def)
      have "{j..<count} = insert j {j + 1..<count}" using True by auto
      with b fj show ?thesis by simp
    qed
  qed
qed

lemma window_free_total:
  "\<forall>k\<in>{j..<count}. m (i + k) \<noteq> None \<Longrightarrow> \<exists>b. window_free m i j count = Inr b"
proof (induction m i j count rule: window_free.induct)
  case (1 m i j count)
  show ?case
  proof (cases "j < count")
    case False
    then show ?thesis by (auto simp: window_free.simps [of m i j count])
  next
    case True
    with "1.prems" obtain sl where sl: "m (i + j) = Some sl" by force
    show ?thesis
    proof (cases "slot_Status sl \<noteq> ''FREE''")
      case True
      with \<open>j < count\<close> sl show ?thesis by (auto simp: window_free.simps [of m i j count])
    next
      case False
      from "1.prems" have "\<forall>k\<in>{j + 1..<count}. m (i + k) \<noteq> None" by simp
      from "1.IH" [OF True sl False this] True sl False show ?thesis
        by (simp add: window_free.simps [of m i j count])
    qed
  qed
qed

lemma assign_window_result:
  "\<forall>k\<in>{j..<count}. slots s (i + k) \<noteq> None \<Longrightarrow> 0 \<le> j \<Longrightarrow>
   assign_window s nodeID now i j count ids =
     (Inr (ids @ [i + j..i + count - 1]),
      s\<lparr>slots := (\<lambda>k. if i + j \<le> k \<and> k < i + count
                        then map_option (\<lambda>sl. assign sl nodeID now) (slots s k)
                        else slots s k)\<rparr>)"
proof (induction s nodeID now i j count ids rule: assign_window.induct)
  case (1 s nodeID now i j count ids)
  show ?case
  proof (cases "j < count")
    case False
    then have "(\<lambda>k. if i + j \<le> k \<and> k < i + count
                        then map_option (\<lambda>sl. assign sl nodeID now) (slots s k)
                        else slots s k) = slots s"
      by (auto simp: fun_eq_iff)
    with False show ?thesis
      by (simp add: assign_window.simps [of s nodeID now i j count ids])
  next
    case True
    with "1.prems" obtain sl where sl: "slots s (i + j) = Some sl" by force
    let ?s' = "put_slot s (i + j) (assign sl nodeID now)"
    have pre: "\<forall>k\<in>{j + 1..<count}. slots ?s' (i + k) \<noteq> None"
      using "1.prems"(1) by (simp add: put_slot_def)
    have j1: "0 \<le> j + 1" using "1.prems"(2) by simp
    have step: "assign_window s nodeID now i j count ids =
                assign_window ?s' nodeID now i (j + 1) count (ids @ [i + j])"
      using True sl by (simp add: assign_window.simps [of s nodeID now i j count ids])
    have lst: "[i + j..i + count - 1] = (i + j) # [i + (j + 1)..i + count - 1]"
      using True by (simp add: upto_rec1 add.assoc)
    have st: "?s'\<lparr>slots := (\<lambda>k. if i + (j + 1) \<le> k \<and> k < i + count
                        then map_option (\<lambda>sl. assign sl nodeID now) (slots ?s' k)
                        else slots ?s' k)\<rparr> =
              s\<lparr>slots := (\<lambda>k. if i + j \<le> k \<and> k < i + count
                        then map_option (\<lambda>sl. assign sl nodeID now) (slots s k)
                        else slots s k)\<rparr>"
      using True sl by (auto simp: put_slot_def fun_eq_iff)
    show ?thesis
      unfolding step "1.IH" [OF True sl pre j1] lst st by simp
  qed
qed

lemma sub64_no_wrap: "is_int64 (a - b) \<Longrightarrow> sub64 a b = a - b"
  by (simp add: sub64_def is_int64_def signed_take_bit_int_eq_self)

lemma sub64_count:
  assumes "0 \<le> n" and "is_int64 n" and "is_int64 count" and "0 \<le> count"
  shows "sub64 n count = n - count"
  using assms by (intro sub64_no_wrap) (simp add: is_int64_def)

lemma first_fit_result:
  assumes "populated s" and "0 \<le> i0" and "first_fit s nodeID count now i0 = (r, s')"
    and "0 < count \<longrightarrow> sub64 (totalSlots s) count = totalSlots s - count"
  shows "(\<forall>e. r = Inl e \<longrightarrow>
            e = InsufficientConsecutiveSlots \<and> s' = s \<and>
            (\<forall>i\<in>{i0..sub64 (totalSlots s) count}. \<not> window_is_free (slots s) i count)) \<and>
         (\<forall>ids. r = Inr ids \<longrightarrow>
            (\<exists>i\<in>{i0..sub64 (totalSlots s) count}.
               window_is_free (slots s) i count \<and>
               (\<forall>i'\<in>{i0..<i}. \<not> window_is_free (slots s) i' count) \<and>
               ids = [i..i + count - 1] \<and> s' = assign_range s nodeID now i count))"
  using assms
proof (induction s nodeID count now i0 arbitrary: r s' rule: first_fit.induct)
  case (1 s nodeID count now i)
  let ?N = "totalSlots s"
  show ?case
  proof (cases "i \<le> sub64 ?N count")
    case False
    with "1.prems"(3) show ?thesis
      by (auto simp: first_fit.simps [of s nodeID count now i])
  next
    case True
    have some: "\<forall>k\<in>{0..<count}. slots s (i + k) \<noteq> None"
    proof
      fix k assume k: "k \<in> {0..<count}"
      then have "0 < count" by auto
      with "1.prems"(4) True have "i \<le> ?N - count" by simp
      with k "1.prems"(2) have "i + k \<in> {0..<?N}" by auto
      with "1.prems"(1) show "slots s (i + k) \<noteq> None" by (simp add: populated_def)
    qed
    from window_free_total [OF some] obtain b where b: "window_free (slots s) i 0 count = Inr b"
      by blast
    from window_free_result [OF b] have bw: "b = window_is_free (slots s) i count"
      by (simp add: window_is_free_def)
    show ?thesis
    proof (cases b)
      case True
      from \<open>i \<le> sub64 ?N count\<close> b True "1.prems"(3)
      have "(r, s') = assign_window s nodeID now i 0 count []"
        by (simp add: first_fit.simps [of s nodeID count now i])
      also have "\<dots> = (Inr [i..i + count - 1], assign_range s nodeID now i count)"
        using assign_window_result [OF _ order_refl, of count s i nodeID now "[]"] some
        by (simp add: assign_range_def)
      finally have "r = Inr [i..i + count - 1]" "s' = assign_range s nodeID now i count"
        by simp_all
      with True bw \<open>i \<le> sub64 ?N count\<close> show ?thesis
        by (auto intro!: bexI [of _ i])
    next
      case False
      from \<open>i \<le> sub64 ?N count\<close> b False "1.prems"(3)
      have run: "first_fit s nodeID count now (i + 1) = (r, s')"
        by (simp add: first_fit.simps [of s nodeID count now i])
      have i1: "0 \<le> i + 1" using "1.prems"(2) by simp
      note IH = "1.IH" [OF \<open>i \<le> sub64 ?N count\<close> b False "1.prems"(1) i1 run "1.prems"(4)]
      have split_all: "{i..sub64 ?N count} = insert i {i + 1..sub64 ?N count}"
        using \<open>i \<le> sub64 ?N count\<close> by auto
      from False bw have nf: "\<not> window_is_free (slots s) i count" by simp
      show ?thesis
      proof (rule conjI; rule allI; rule impI)
        fix e assume "r = Inl e"
        with IH nf split_all
        show "e = InsufficientConsecutiveSlots \<and> s' = s \<and>
              (\<forall>w\<in>{i..sub64 ?N count}. \<not> window_is_free (slots s) w count)"
          by simp
      next
        fix ids assume "r = Inr ids"
        with IH obtain k where k: "k \<in> {i + 1..sub64 ?N count}" "window_is_free (slots s) k count"
          "\<forall>i'\<in>{i + 1..<k}. \<not> window_is_free (slots s) i' count"
          "ids = [k..k + count - 1]" "s' = assign_range s nodeID now k count"
          by blast
        have "{i..<k} = insert i {i + 1..<k}" using k(1) by auto
        with k nf have "\<forall>i'\<in>{i..<k}. \<not> window_is_free (slots s) i' count" by simp
        with k show "\<exists>w\<in>{i..sub64 ?N count}.
               window_is_free (slots s) w count \<and>
               (\<forall>i'\<in>{i..<w}. \<not> window_is_free (slots s) i' count) \<and>
               ids = [w..w + count - 1] \<and> s' = assign_range s nodeID now w count"
          by (intro bexI [of _ k]) auto
      qed
    qed
  qed
qed

lemma init_slots_apply:
  "init_slots i n d m k =
     (if i \<le> k \<and> k < n
      then Some \<lparr>slot_SlotID = k, slot_NodeID = [], slot_Status = ''FREE'',
                 slot_StartTime = zero_Time, slot_Duration = d, slot_FragmentID = 0\<rparr>
      else m k)"
proof (induction i n d m rule: init_slots.induct)
  case (1 i n d m)
  show ?case
  proof (cases "i < n")
    case False
    then show ?thesis by (auto simp: init_slots.simps [of i n d m])
  next
    case True
    have "init_slots i n d m k =
          init_slots (i + 1) n d
            (m(i \<mapsto> \<lparr>slot_SlotID = i, slot_NodeID = [], slot_Status = ''FREE'',
                      slot_StartTime = zero_Time, slot_Duration = d, slot_FragmentID = 0\<rparr>)) k"
      using True by (simp add: init_slots.simps [of i n d m])
    also note "1.IH" [OF True]
    finally show ?thesis using True by auto
  qed
qed

lemma populated_NewTDMAScheduler: "populated (NewTDMAScheduler n d now)"
  by (simp add: populated_def NewTDMAScheduler_def init_slots_apply)

lemma populated_assign_range: "populated s \<Longrightarrow> populated (assign_range s nodeID now i count)"
  by (auto simp: populated_def assign_range_def)

text \<open>
  Claim C6. The table is populated, and the number of slots (not negative) and \<open>count\<close>
  are values of Go's \<open>int\<close>. The scan runs over the start positions
  \<open>0, \<dots>, totalSlots - count\<close>, the difference being Go's, which is the exact one for every
  \<open>count \<ge> 0\<close>. \<open>AllocateConsecutiveSlots\<close> either fails with
  \<open>InsufficientConsecutiveSlots\<close>, leaving the state as it was, and then no window of
  \<open>count\<close> free slots starts at any of these positions; or it returns the slots
  \<open>i, \<dots>, i + count - 1\<close> of the first such window (no free window starts before \<open>i\<close>,
  and the window ends inside the table), and the new state is the old one with exactly
  these slots assigned to the node. On a fresh table of ten slots a request for three
  slots returns \<open>[0, 1, 2]\<close> and a second node's request returns \<open>[3, 4, 5]\<close>.
\<close>

theorem consecutive_allocation:
  "(populated s \<and> 0 \<le> totalSlots s \<and> is_int64 (totalSlots s) \<and> is_int64 count \<and>
    AllocateConsecutiveSlots s nodeID count now = (r, s') \<longrightarrow>
      (0 \<le> count \<longrightarrow> sub64 (totalSlots s) count = totalSlots s - count) \<and>
      (case r of
         Inl e \<Rightarrow>
           e = InsufficientConsecutiveSlots \<and> s' = s \<and>
           (\<forall>i\<in>{0..sub64 (totalSlots s) count}. \<not> window_is_free (slots s) i count)
       | Inr ids \<Rightarrow>
           (\<exists>i\<in>{0..sub64 (totalSlots s) count}.
              window_is_free (slots s) i count \<and>
              (\<forall>i'\<in>{0..<i}. \<not> window_is_free (slots s) i' count) \<and>
              ids = [i..i + count - 1] \<and> s' = assign_range s nodeID now i count))) \<and>
   (let s0 = NewTDMAScheduler 10 d t0;
        (r1, s1) = AllocateConsecutiveSlots s0 ''X'' 3 t1;
        (r2, s2) = AllocateConsecutiveSlots s1 ''Y'' 3 t2
    in r1 = Inr [0, 1, 2] \<and> r2 = Inr [3, 4, 5])"
proof (rule conjI)
  show "populated s \<and> 0 \<le> totalSlots s \<and> is_int64 (totalSlots s) \<and> is_int64 count \<and>
    AllocateConsecutiveSlots s nodeID count now = (r, s') \<longrightarrow>
      (0 \<le> count \<longrightarrow> sub64 (totalSlots s) count = totalSlots s - count) \<and>
      (case r of
         Inl e \<Rightarrow>
           e = InsufficientConsecutiveSlots \<and> s' = s \<and>
           (\<forall>i\<in>{0..sub64 (totalSlots s) count}. \<not> window_is_free (slots s) i count)
       | Inr ids \<Rightarrow>
           (\<exists>i\<in>{0..sub64 (totalSlots s) count}.
              window_is_free (slots s) i count \<and>
              (\<forall>i'\<in>{0..<i}. \<not> window_is_free (slots s) i' count) \<and>
              ids = [i..i + count - 1] \<and> s' = assign_range s nodeID now i count))"
  proof (intro impI conjI)
    assume a: "populated s \<and> 0 \<le> totalSlots s \<and> is_int64 (totalSlots s) \<and> is_int64 count \<and>
      AllocateConsecutiveSlots s nodeID count now = (r, s')"
    then have pop: "populated s" and n0: "0 \<le> totalSlots s" and n: "is_int64 (totalSlots s)"
      and c: "is_int64 count" by simp_all
    from a have run: "first_fit s nodeID count now 0 = (r, s')"
      by (simp add: AllocateConsecutiveSlots_def)
    show exact: "sub64 (totalSlots s) count = totalSlots s - count" if "0 \<le> count"
      using n0 n c that by (rule sub64_count)
    then have pos: "0 < count \<longrightarrow> sub64 (totalSlots s) count = totalSlots s - count"
      by simp
    from first_fit_result [OF pop order_refl run pos] show "case r of
         Inl e \<Rightarrow>
           e = InsufficientConsecutiveSlots \<and> s' = s \<and>
           (\<forall>i\<in>{0..sub64 (totalSlots s) count}. \<not> window_is_free (slots s) i count)
       | Inr ids \<Rightarrow>
           (\<exists>i\<in>{0..sub64 (totalSlots s) count}.
              window_is_free (slots s) i count \<and>
              (\<forall>i'\<in>{0..<i}. \<not> window_is_free (slots s) i' count) \<and>
              ids = [i..i + count - 1] \<and> s' = assign_range s nodeID now i count)"
      by (cases r) simp_all
  qed
next
  show "let s0 = NewTDMAScheduler 10 d t0;
        (r1, s1) = AllocateConsecutiveSlots s0 ''X'' 3 t1;
        (r2, s2) = AllocateConsecutiveSlots s1 ''Y'' 3 t2
    in r1 = Inr [0, 1, 2] \<and> r2 = Inr [3, 4, 5]"
    by (simp add: NewTDMAScheduler_def AllocateConsecutiveSlots_def init_slots.simps
        first_fit.simps window_free.simps assign_window.simps put_slot_def assign_def
        sub64_def)
qed

text \<open>
  A request for \<open>-2^63\<close> slots: the loop bound wraps around to a negative number, the loop
  does not run and the call fails, the table unchanged.
\<close>

lemma consecutive_min_count:
  "AllocateConsecutiveSlots (NewTDMAScheduler 10 d t0) ''X'' (- (2 ^ 63)) t1 =
     (Inl InsufficientConsecutiveSlots, NewTDMAScheduler 10 d t0)"
  by (simp add: NewTDMAScheduler_def AllocateConsecutiveSlots_def first_fit.simps sub64_def)

theorem consecutive_allocation_witness:
  "populated three_taken \<and> 0 \<le> totalSlots three_taken \<and> is_int64 (totalSlots three_taken) \<and>
   is_int64 8 \<and>
   AllocateConsecutiveSlots three_taken ''Y'' 8 2 = (Inl InsufficientConsecutiveSlots, three_taken)"
proof -
  let ?s0 = "NewTDMAScheduler 10 1000000000 0"
  have n0: "totalSlots ?s0 = 10" by (simp add: NewTDMAScheduler_def)
  obtain r0 where r0: "AllocateConsecutiveSlots ?s0 ''X'' 3 1 = (r0, three_taken)"
    by (simp add: three_taken_def prod_eq_iff)
  have "fst (AllocateConsecutiveSlots ?s0 ''X'' 3 1) = Inr [0, 1, 2]"
    by (simp add: NewTDMAScheduler_def AllocateConsecutiveSlots_def init_slots.simps
        first_fit.simps window_free.simps assign_window.simps put_slot_def assign_def
        sub64_def)
  with r0 have r0': "r0 = Inr [0, 1, 2]" by simp
  have h0: "populated ?s0 \<and> 0 \<le> totalSlots ?s0 \<and> is_int64 (totalSlots ?s0) \<and> is_int64 3 \<and>
            AllocateConsecutiveSlots ?s0 ''X'' 3 1 = (Inr [0, 1, 2], three_taken)"
    using r0 r0' populated_NewTDMAScheduler [of 10 1000000000 0]
    by (simp add: n0 is_int64_def)
  from consecutive_allocation [THEN conjunct1, rule_format, OF h0]
  obtain i where eq: "three_taken = assign_range ?s0 ''X'' 1 i 3"
    by auto
  have pop: "populated three_taken"
    unfolding eq by (rule populated_assign_range) (rule populated_NewTDMAScheduler)
  have n: "totalSlots three_taken = 10"
    unfolding eq by (simp add: assign_range_def n0)
  obtain r s' where run: "AllocateConsecutiveSlots three_taken ''Y'' 8 2 = (r, s')"
    by (cases "AllocateConsecutiveSlots three_taken ''Y'' 8 2")
  have "fst (AllocateConsecutiveSlots three_taken ''Y'' 8 2) = Inl InsufficientConsecutiveSlots"
    by (simp add: three_taken_def NewTDMAScheduler_def AllocateConsecutiveSlots_def
        init_slots.simps first_fit.simps window_free.simps assign_window.simps put_slot_def
        assign_def sub64_def)
  with run have r: "r = Inl InsufficientConsecutiveSlots" by simp
  have h: "populated three_taken \<and> 0 \<le> totalSlots three_taken \<and>
           is_int64 (totalSlots three_taken) \<and> is_int64 8 \<and>
           AllocateConsecutiveSlots three_taken ''Y'' 8 2 = (Inl InsufficientConsecutiveSlots, s')"
    using pop run r by (simp add: n is_int64_def)
  from consecutive_allocation [THEN conjunct1, rule_format, OF h]
  have "s' = three_taken" by simp
  with h show ?thesis by simp
qed

section \<open>Witnesses of the scheduler and validation theorems\<close>

lemma full_table_eval:
  "full_table =
     \<lparr>slots = [0 \<mapsto> \<lparr>slot_SlotID = 0, slot_NodeID = ''A'', slot_Status = ''ASSIGNED'',
                       slot_StartTime = 100, slot_Duration = 1000000000, slot_FragmentID = 0\<rparr>,
               1 \<mapsto> \<lparr>slot_SlotID = 1, slot_NodeID = ''B'', slot_Status = ''ASSIGNED'',
                       slot_StartTime = 100, slot_Duration = 1000000000, slot_FragmentID = 0\<rparr>],
      totalSlots = 2, slotDuration = 1000000000, currentSlot = 0, startTime = 0\<rparr>"
  by (simp add: full_table_def NewTDMAScheduler_def AllocateTimeSlot_def init_slots.simps
      own_slot.simps take_if_free_def put_slot_def assign_def signed_modulo_int_def)

theorem allocate_failure_leaves_table_witness:
  "0 \<le> currentSlot full_table \<and> currentSlot full_table < totalSlots full_table \<and>
   AllocateTimeSlot full_table ''C'' 1 200 = (Inl NoSlotAvailable, full_table)"
proof -
  have 1: "0 \<le> currentSlot full_table" and 2: "currentSlot full_table < totalSlots full_table"
    by (simp_all add: full_table_eval)
  obtain r s' where run: "AllocateTimeSlot full_table ''C'' 1 200 = (r, s')"
    by (cases "AllocateTimeSlot full_table ''C'' 1 200")
  have "fst (AllocateTimeSlot full_table ''C'' 1 200) = Inl NoSlotAvailable"
    by (simp add: full_table_eval AllocateTimeSlot_def own_slot.simps take_if_free_def
        scan_ring_def scan_free.simps reuse_oldest_def find_oldest.simps put_slot_def
        assign_def signed_modulo_int_def time_Since_def time_Sub_def maxDuration_def
        minDuration_def)
  with run have r: "r = Inl NoSlotAvailable" by simp
  from allocate_failure_leaves_table [OF 1 2 run [unfolded r]] have "s' = full_table" .
  with 1 2 run r show ?thesis by simp
qed

theorem validate_characterisation_witness:
  "length (Data (NewTDMAFrame 3 ''GS1'' [1, 2])) < 2 ^ 32 \<and>
   Validate (NewTDMAFrame 3 ''GS1'' [1, 2]) = Inr () \<and>
   unat (Length (NewTDMAFrame 3 ''GS1'' [1, 2])) = length (Data (NewTDMAFrame 3 ''GS1'' [1, 2]))"
proof -
  let ?f = "NewTDMAFrame 3 ''GS1'' [1, 2]"
  have 1: "length (Data ?f) < 2 ^ 32" by (simp add: NewTDMAFrame_def Let_def)
  have 2: "Validate ?f = Inr ()" by (rule Validate_NewTDMAFrame)
  from validate_characterisation [of ?f] 1 2 show ?thesis by blast
qed

section \<open>The global slot clock\<close>

lemma sint_word_of_int_64:
  "- (2 ^ 63) \<le> k \<Longrightarrow> k < 2 ^ 63 \<Longrightarrow> sint (word_of_int k :: 64 word) = k"
  by (simp add: signed_of_int signed_take_bit_int_eq_self)

lemma sdiv_nonneg: "0 \<le> a \<Longrightarrow> 0 < b \<Longrightarrow> (a::int) sdiv b = a div b"
  by (simp add: signed_divide_int_def sgn_if)

text \<open>
  Claim C4, as the code has it. \<open>GetGlobalSlotID\<close> has no check of its configuration.
  For a positive slot duration, a positive number of slots and a clock reading at or after
  the epoch (less than \<open>2^63\<close> nanoseconds after it), the result is
  \<open>floor ((now - epoch) / slotDuration) mod totalSlots\<close>, a function of the clock reading
  and the two arguments alone.
\<close>

theorem global_slot_in_range:
  assumes "0 <s dur" and "0 <s n"
    and "TDMA_EPOCH \<le> now" and "now - TDMA_EPOCH < 2 ^ 63"
  shows "\<exists>slot. GetGlobalSlotID now dur n = Inr slot \<and>
           sint slot = ((now - TDMA_EPOCH) div sint dur) mod sint n"
proof -
  define e where "e = now - TDMA_EPOCH"
  from assms(1) have d: "0 < sint dur" by (simp add: word_sless_alt)
  from assms(2) have npos: "0 < sint n" by (simp add: word_sless_alt)
  from d have d0: "dur \<noteq> 0" by auto
  from npos have n0: "n \<noteq> 0" by auto
  from assms(3) have e0: "0 \<le> e" by (simp add: e_def)
  from assms(4) have e1: "e < 2 ^ 63" by (simp add: e_def)
  have el: "time_Sub now TDMA_EPOCH = word_of_int e"
    using e0 e1 unfolding time_Sub_def maxDuration_def minDuration_def Let_def e_def [symmetric]
    by simp
  have se: "sint (word_of_int e :: 64 word) = e"
    using e0 e1 by (intro sint_word_of_int_64) simp_all
  define q where "q = e div sint dur"
  have q0: "0 \<le> q" using e0 d by (simp add: q_def pos_imp_zdiv_nonneg_iff)
  have "q \<le> e div 1" unfolding q_def using e0 d by (intro zdiv_mono2) simp_all
  with e1 have q1: "q < 2 ^ 63" by simp
  have gq: "go_div64 (word_of_int e) dur = word_of_int q"
    by (simp add: go_div64_def se sdiv_nonneg [OF e0 d] q_def)
  have sq: "sint (word_of_int q :: 64 word) = q"
    using q0 q1 by (intro sint_word_of_int_64) simp_all
  define r where "r = q mod sint n"
  have r0: "0 \<le> r" using npos by (simp add: r_def)
  have "r \<le> q" unfolding r_def using q0 by (rule zmod_le_nonneg_dividend)
  with q1 have r1: "r < 2 ^ 63" by simp
  have gm: "go_mod64 (word_of_int q) n = word_of_int r"
    using q0 npos by (simp add: go_mod64_def sq signed_modulo_int_def sgn_if r_def)
  have sr: "sint (word_of_int r :: 64 word) = r"
    using r0 r1 by (intro sint_word_of_int_64) simp_all
  have "GetGlobalSlotID now dur n = Inr (word_of_int r)"
    by (simp add: GetGlobalSlotID_def Let_def d0 n0 el gq gm)
  with sr show ?thesis unfolding r_def q_def e_def by blast
qed

theorem global_slot_in_range_witness:
  "(0 :: 64 word) <s 1000000000 \<and> (0 :: 64 word) <s 10 \<and>
   TDMA_EPOCH \<le> TDMA_EPOCH + 25000000000 \<and> (TDMA_EPOCH + 25000000000) - TDMA_EPOCH < 2 ^ 63 \<and>
   GetGlobalSlotID (TDMA_EPOCH + 25000000000) 1000000000 10 = Inr 5"
proof -
  have 1: "(0 :: 64 word) <s 1000000000" and 2: "(0 :: 64 word) <s 10"
    by (simp_all add: word_sless_alt)
  have 3: "TDMA_EPOCH \<le> TDMA_EPOCH + 25000000000"
    and 4: "(TDMA_EPOCH + 25000000000) - TDMA_EPOCH < 2 ^ 63" by simp_all
  from global_slot_in_range [OF 1 2 3 4] obtain slot
    where s: "GetGlobalSlotID (TDMA_EPOCH + 25000000000) 1000000000 10 = Inr slot"
      and v: "sint slot = ((TDMA_EPOCH + 25000000000 - TDMA_EPOCH) div sint (1000000000 :: 64 word))
                 mod sint (10 :: 64 word)"
    by blast
  from v have "sint slot = sint (5 :: 64 word)" by simp
  then have "slot = 5" by (simp only: signed_word_eqI)
  with s 1 2 3 4 show ?thesis by simp
qed

text \<open>
  Claim C4 as stated fails: a negative slot duration is not rejected but divided by,
  truncating towards zero (the result is the slot \<open>-5\<close>); a clock reading before the
  epoch gives slot 0 where the floor formula gives 9; and a zero slot duration is a
  division panic, not a configuration error.
\<close>

theorem global_slot_counterexample:
  "GetGlobalSlotID (TDMA_EPOCH + 5) (- 1) 10 = Inr (- 5) \<and>
   GetGlobalSlotID (TDMA_EPOCH - 1) 2 10 = Inr 0 \<and>
   ((TDMA_EPOCH - 1 - TDMA_EPOCH) div 2) mod 10 = (9 :: int) \<and>
   GetGlobalSlotID (TDMA_EPOCH + 5) 0 10 = Inl DivideByZero"
  by (simp add: GetGlobalSlotID_def time_Sub_def maxDuration_def minDuration_def Let_def
      go_div64_def go_mod64_def signed_divide_int_def signed_modulo_int_def)

section \<open>Fragmentation\<close>

lemma chunks_Nil: "chunks m [] = []"
  by (simp add: chunks.simps)

lemma chunks_step: "0 < m \<Longrightarrow> xs \<noteq> [] \<Longrightarrow> chunks m xs = take m xs # chunks m (drop m xs)"
  by (subst chunks.simps) simp

lemma concat_chunks: "0 < m \<Longrightarrow> concat (chunks m xs) = xs"
proof (induction m xs rule: chunks.induct)
  case (1 m xs)
  show ?case
  proof (cases "xs = []")
    case True
    then show ?thesis by (simp add: chunks_Nil)
  next
    case False
    with "1.prems" have "\<not> (m = 0 \<or> xs = [])" by simp
    from "1.IH" [OF this "1.prems"] show ?thesis
      by (simp add: chunks_step [OF "1.prems" False])
  qed
qed

lemma ceil_small: "0 < n \<Longrightarrow> n \<le> m \<Longrightarrow> (n + m - 1) div m = (1::nat)"
proof -
  assume n: "0 < n" and le: "n \<le> m"
  obtain k where k: "n = Suc k" using n by (cases n) auto
  with le have km: "k < m" by simp
  then have m0: "m \<noteq> 0" by simp
  have "(n + m - 1) div m = (k + m) div m" by (simp add: k)
  also have "\<dots> = k div m + 1" using m0 by (rule div_add_self2)
  also have "\<dots> = 1" using km by simp
  finally show ?thesis .
qed

lemma ceil_step: "0 < m \<Longrightarrow> m < n \<Longrightarrow> (n + m - 1) div m = Suc ((n - m + m - 1) div m)"
proof -
  assume m: "0 < m" and lt: "m < (n::nat)"
  define a where "a = n - m + m - 1"
  from m have m0: "m \<noteq> 0" by simp
  from m lt have "n + m - 1 = a + m" by (simp add: a_def)
  then have "(n + m - 1) div m = (a + m) div m" by simp
  also have "\<dots> = a div m + 1" using m0 by (rule div_add_self2)
  finally show ?thesis by (simp add: a_def)
qed

lemma length_chunks: "0 < m \<Longrightarrow> length (chunks m xs) = (length xs + m - 1) div m"
proof (induction m xs rule: chunks.induct)
  case (1 m xs)
  show ?case
  proof (cases "xs = []")
    case True
    with "1.prems" show ?thesis by (simp add: chunks_Nil)
  next
    case False
    with "1.prems" have c: "\<not> (m = 0 \<or> xs = [])" by simp
    have step: "length (chunks m xs) = Suc (length (chunks m (drop m xs)))"
      by (simp add: chunks_step [OF "1.prems" False])
    show ?thesis
    proof (cases "length xs \<le> m")
      case True
      then have "drop m xs = []" by simp
      then have "length (chunks m xs) = 1" unfolding step by (simp add: chunks_Nil)
      also have "1 = (length xs + m - 1) div m"
        using ceil_small [of "length xs" m] False True by simp
      finally show ?thesis .
    next
      case False
      have "length (chunks m xs) = Suc ((length xs - m + m - 1) div m)"
        unfolding step using "1.IH" [OF c "1.prems"] by simp
      also have "\<dots> = (length xs + m - 1) div m"
        using ceil_step [of m "length xs"] "1.prems" False by simp
      finally show ?thesis .
    qed
  qed
qed

lemma nth_chunks:
  "0 < m \<Longrightarrow> i < length (chunks m xs) \<Longrightarrow> chunks m xs ! i = take m (drop (i * m) xs)"
proof (induction m xs arbitrary: i rule: chunks.induct)
  case (1 m xs)
  show ?case
  proof (cases "xs = []")
    case True
    with "1.prems" show ?thesis by (simp add: chunks_Nil)
  next
    case False
    with "1.prems" have c: "\<not> (m = 0 \<or> xs = [])" by simp
    show ?thesis
    proof (cases i)
      case 0
      then show ?thesis by (simp add: chunks_step [OF "1.prems"(1) False])
    next
      case (Suc j)
      with "1.prems"(2) have "j < length (chunks m (drop m xs))"
        by (simp add: chunks_step [OF "1.prems"(1) False])
      from "1.IH" [OF c "1.prems"(1) this] Suc show ?thesis
        by (simp add: chunks_step [OF "1.prems"(1) False] add.commute)
    qed
  qed
qed

lemma NewFragmentTDMAFrame_fields:
  "Data (NewFragmentTDMAFrame s n g t i d a b) = d"
  "TotalFrags (NewFragmentTDMAFrame s n g t i d a b) = t"
  "FragIndex (NewFragmentTDMAFrame s n g t i d a b) = i"
  "FragmentID (NewFragmentTDMAFrame s n g t i d a b) = g"
  by (simp_all add: NewFragmentTDMAFrame_def Let_def)

lemma NewFragmentTDMAFrame_flags:
  "IsFragment (NewFragmentTDMAFrame s n g t i d a b)"
  "IsFirstFragment (NewFragmentTDMAFrame s n g t i d a b) \<longleftrightarrow> a"
  "IsLastFragment (NewFragmentTDMAFrame s n g t i d a b) \<longleftrightarrow> b"
  by (cases a; cases b;
      simp add: NewFragmentTDMAFrame_def Let_def IsFragment_def IsFirstFragment_def
        IsLastFragment_def FLAG_FRAGMENT_def FLAG_FIRST_FRAG_def FLAG_LAST_FRAG_def)+

lemma NewTDMAFrame_fields:
  "Data (NewTDMAFrame s n d) = d" "TotalFrags (NewTDMAFrame s n d) = 1"
  "Flags (NewTDMAFrame s n d) = 0" "FragmentID (NewTDMAFrame s n d) = 0"
  "FragIndex (NewTDMAFrame s n d) = 0"
  by (simp_all add: NewTDMAFrame_def Let_def)

lemma NewTDMAFrame_not_fragment:
  "\<not> IsFragment (NewTDMAFrame s n d)" "\<not> IsFirstFragment (NewTDMAFrame s n d)"
  "\<not> IsLastFragment (NewTDMAFrame s n d)"
  by (simp_all add: NewTDMAFrame_fields IsFragment_def IsFirstFragment_def IsLastFragment_def)

lemma split_single:
  "length payload \<le> m \<Longrightarrow> split payload m nodeId slotId fid = [NewTDMAFrame slotId nodeId payload]"
  by (simp add: split_def)

lemma length_split:
  "0 < m \<Longrightarrow> m < length payload \<Longrightarrow>
   length (split payload m nodeId slotId fid) = (length payload + m - 1) div m"
  by (simp add: split_def Let_def length_chunks)

lemma nth_split:
  assumes "0 < m" "m < length payload" "i < (length payload + m - 1) div m"
  shows "split payload m nodeId slotId fid ! i =
           NewFragmentTDMAFrame slotId nodeId fid (of_nat ((length payload + m - 1) div m))
             (of_nat i) (take m (drop (i * m) payload)) (i = 0)
             (i = (length payload + m - 1) div m - 1)"
  using assms by (simp add: split_def Let_def length_chunks nth_chunks)

lemma map_Data_split:
  assumes "0 < m" "m < length payload"
  shows "map Data (split payload m nodeId slotId fid) = chunks m payload"
  using assms
  by (auto simp: split_def Let_def NewFragmentTDMAFrame_fields intro!: nth_equalityI)

text \<open>
  The frames of \<open>split\<close>, field by field; the number of frames and the index are stored
  as 16-bit values.
\<close>

lemma split_frames:
  assumes "0 < m"
  shows "(length payload \<le> m \<longrightarrow>
            split payload m nodeId slotId fid = [NewTDMAFrame slotId nodeId payload] \<and>
            Data (NewTDMAFrame slotId nodeId payload) = payload \<and>
            Flags (NewTDMAFrame slotId nodeId payload) = 0 \<and>
            TotalFrags (NewTDMAFrame slotId nodeId payload) = 1) \<and>
         (m < length payload \<longrightarrow>
            length (split payload m nodeId slotId fid) = (length payload + m - 1) div m \<and>
            concat (map Data (split payload m nodeId slotId fid)) = payload \<and>
            (\<forall>i < length (split payload m nodeId slotId fid).
               Data (split payload m nodeId slotId fid ! i) = take m (drop (i * m) payload) \<and>
               length (Data (split payload m nodeId slotId fid ! i)) \<le> m \<and>
               TotalFrags (split payload m nodeId slotId fid ! i)
                 = of_nat ((length payload + m - 1) div m) \<and>
               FragIndex (split payload m nodeId slotId fid ! i) = of_nat i \<and>
               FragmentID (split payload m nodeId slotId fid ! i) = fid \<and>
               IsFragment (split payload m nodeId slotId fid ! i) \<and>
               (IsFirstFragment (split payload m nodeId slotId fid ! i) \<longleftrightarrow> i = 0) \<and>
               (IsLastFragment (split payload m nodeId slotId fid ! i)
                  \<longleftrightarrow> i = length (split payload m nodeId slotId fid) - 1)))"
proof (intro conjI impI)
  assume "length payload \<le> m"
  then show "split payload m nodeId slotId fid = [NewTDMAFrame slotId nodeId payload]"
    by (rule split_single)
next
  show "Data (NewTDMAFrame slotId nodeId payload) = payload"
    "Flags (NewTDMAFrame slotId nodeId payload) = 0"
    "TotalFrags (NewTDMAFrame slotId nodeId payload) = 1"
    by (simp_all add: NewTDMAFrame_fields)
next
  assume big: "m < length payload"
  show len: "length (split payload m nodeId slotId fid) = (length payload + m - 1) div m"
    by (rule length_split [OF assms big])
  show "concat (map Data (split payload m nodeId slotId fid)) = payload"
    by (simp add: map_Data_split [OF assms big] concat_chunks [OF assms])
  show "\<forall>i < length (split payload m nodeId slotId fid).
               Data (split payload m nodeId slotId fid ! i) = take m (drop (i * m) payload) \<and>
               length (Data (split payload m nodeId slotId fid ! i)) \<le> m \<and>
               TotalFrags (split payload m nodeId slotId fid ! i)
                 = of_nat ((length payload + m - 1) div m) \<and>
               FragIndex (split payload m nodeId slotId fid ! i) = of_nat i \<and>
               FragmentID (split payload m nodeId slotId fid ! i) = fid \<and>
               IsFragment (split payload m nodeId slotId fid ! i) \<and>
               (IsFirstFragment (split payload m nodeId slotId fid ! i) \<longleftrightarrow> i = 0) \<and>
               (IsLastFragment (split payload m nodeId slotId fid ! i)
                  \<longleftrightarrow> i = length (split payload m nodeId slotId fid) - 1)"
  proof (intro allI impI)
    fix i assume "i < length (split payload m nodeId slotId fid)"
    then have i: "i < (length payload + m - 1) div m" by (simp add: len)
    show "Data (split payload m nodeId slotId fid ! i) = take m (drop (i * m) payload) \<and>
               length (Data (split payload m nodeId slotId fid ! i)) \<le> m \<and>
               TotalFrags (split payload m nodeId slotId fid ! i)
                 = of_nat ((length payload + m - 1) div m) \<and>
               FragIndex (split payload m nodeId slotId fid ! i) = of_nat i \<and>
               FragmentID (split payload m nodeId slotId fid ! i) = fid \<and>
               IsFragment (split payload m nodeId slotId fid ! i) \<and>
               (IsFirstFragment (split payload m nodeId slotId fid ! i) \<longleftrightarrow> i = 0) \<and>
               (IsLastFragment (split payload m nodeId slotId fid ! i)
                  \<longleftrightarrow> i = length (split payload m nodeId slotId fid) - 1)"
      unfolding nth_split [OF assms big i] len
      by (simp add: NewFragmentTDMAFrame_fields NewFragmentTDMAFrame_flags)
  qed
qed

lemma unat_of_nat16: "n < 2 ^ 16 \<Longrightarrow> unat (of_nat n :: 16 word) = n"
  by (simp add: unat_of_nat)

text \<open>
  Claim C8, for \<open>split\<close> as modelled from the specification over the constructors of the
  source, and with the 16-bit \<open>TotalFrags\<close> of the frame. For a fragment size \<open>m > 0\<close>: a
  payload of at most \<open>m\<close> bytes gives the single frame of \<^verbatim>\<open>NewTDMAFrame\<close>, with no flag
  set and \<open>TotalFrags = 1\<close>. A longer payload gives \<open>ceil (length payload / m)\<close> frames;
  their payloads are the consecutive pieces of at most \<open>m\<close> bytes and concatenate to the
  payload; every frame has the fragment flag, has the first-fragment flag exactly at
  index 0 and the last-fragment flag exactly at the last index; and when the number of
  frames is below \<open>2^16\<close>, every frame carries it in \<open>TotalFrags\<close> and its own index in
  \<open>FragIndex\<close>.
\<close>

theorem split_fragments:
  assumes "0 < m"
  shows "(length payload \<le> m \<longrightarrow>
            split payload m nodeId slotId fid = [NewTDMAFrame slotId nodeId payload] \<and>
            Data (NewTDMAFrame slotId nodeId payload) = payload \<and>
            Flags (NewTDMAFrame slotId nodeId payload) = 0 \<and>
            TotalFrags (NewTDMAFrame slotId nodeId payload) = 1) \<and>
         (m < length payload \<longrightarrow>
            length (split payload m nodeId slotId fid) = (length payload + m - 1) div m \<and>
            concat (map Data (split payload m nodeId slotId fid)) = payload \<and>
            (\<forall>i < length (split payload m nodeId slotId fid).
               Data (split payload m nodeId slotId fid ! i) = take m (drop (i * m) payload) \<and>
               length (Data (split payload m nodeId slotId fid ! i)) \<le> m \<and>
               FragmentID (split payload m nodeId slotId fid ! i) = fid \<and>
               IsFragment (split payload m nodeId slotId fid ! i) \<and>
               (IsFirstFragment (split payload m nodeId slotId fid ! i) \<longleftrightarrow> i = 0) \<and>
               (IsLastFragment (split payload m nodeId slotId fid ! i)
                  \<longleftrightarrow> i = length (split payload m nodeId slotId fid) - 1) \<and>
               ((length payload + m - 1) div m < 2 ^ 16 \<longrightarrow>
                  unat (TotalFrags (split payload m nodeId slotId fid ! i))
                    = (length payload + m - 1) div m \<and>
                  unat (FragIndex (split payload m nodeId slotId fid ! i)) = i)))"
proof (intro conjI impI allI)
  assume "length payload \<le> m"
  then show "split payload m nodeId slotId fid = [NewTDMAFrame slotId nodeId payload]"
    by (rule split_single)
next
  show "Data (NewTDMAFrame slotId nodeId payload) = payload"
    "Flags (NewTDMAFrame slotId nodeId payload) = 0"
    "TotalFrags (NewTDMAFrame slotId nodeId payload) = 1"
    by (simp_all add: NewTDMAFrame_fields)
next
  assume big: "m < length payload"
  note frames = split_frames [OF assms, of payload nodeId slotId fid, THEN conjunct2,
      rule_format, OF big]
  from frames show len: "length (split payload m nodeId slotId fid) = (length payload + m - 1) div m"
    and "concat (map Data (split payload m nodeId slotId fid)) = payload"
    by simp_all
  fix i assume i: "i < length (split payload m nodeId slotId fid)"
  from frames have at: "Data (split payload m nodeId slotId fid ! i) = take m (drop (i * m) payload) \<and>
               length (Data (split payload m nodeId slotId fid ! i)) \<le> m \<and>
               TotalFrags (split payload m nodeId slotId fid ! i)
                 = of_nat ((length payload + m - 1) div m) \<and>
               FragIndex (split payload m nodeId slotId fid ! i) = of_nat i \<and>
               FragmentID (split payload m nodeId slotId fid ! i) = fid \<and>
               IsFragment (split payload m nodeId slotId fid ! i) \<and>
               (IsFirstFragment (split payload m nodeId slotId fid ! i) \<longleftrightarrow> i = 0) \<and>
               (IsLastFragment (split payload m nodeId slotId fid ! i)
                  \<longleftrightarrow> i = length (split payload m nodeId slotId fid) - 1)"
    using i by blast
  from at show "Data (split payload m nodeId slotId fid ! i) = take m (drop (i * m) payload)"
    and "length (Data (split payload m nodeId slotId fid ! i)) \<le> m"
    and "FragmentID (split payload m nodeId slotId fid ! i) = fid"
    and "IsFragment (split payload m nodeId slotId fid ! i)"
    by blast+
  from at show "IsFirstFragment (split payload m nodeId slotId fid ! i) \<longleftrightarrow> i = 0"
    by blast
  from at show "IsLastFragment (split payload m nodeId slotId fid ! i)
                  \<longleftrightarrow> i = length (split payload m nodeId slotId fid) - 1"
    by blast
  assume small: "(length payload + m - 1) div m < 2 ^ 16"
  from at small show "unat (TotalFrags (split payload m nodeId slotId fid ! i))
                    = (length payload + m - 1) div m"
    by (simp add: unat_of_nat16)
  from i len small have "i < 2 ^ 16" by simp
  with at show "unat (FragIndex (split payload m nodeId slotId fid ! i)) = i"
    by (simp add: unat_of_nat16)
qed

theorem split_fragments_witness:
  "(0::nat) < 2 \<and> 2 < length [1, 2, 3, 4, 5 :: byte] \<and>
   length (split [1, 2, 3, 4, 5] 2 ''GS1'' 3 7) = 3 \<and>
   map Data (split [1, 2, 3, 4, 5] 2 ''GS1'' 3 7) = [[1, 2], [3, 4], [5]] \<and>
   map IsFirstFragment (split [1, 2, 3, 4, 5] 2 ''GS1'' 3 7) = [True, False, False] \<and>
   map IsLastFragment (split [1, 2, 3, 4, 5] 2 ''GS1'' 3 7) = [False, False, True] \<and>
   map (\<lambda>f. unat (TotalFrags f)) (split [1, 2, 3, 4, 5] 2 ''GS1'' 3 7) = [3, 3, 3]"
proof -
  let ?fs = "split [1, 2, 3, 4, 5] 2 ''GS1'' 3 7"
  have m: "(0::nat) < 2" and big: "2 < length [1, 2, 3, 4, 5 :: byte]" by simp_all
  note t = split_fragments [OF m, of "[1, 2, 3, 4, 5]" "''GS1''" 3 7, THEN conjunct2, rule_format, OF big]
  from t have len: "length ?fs = 3" by simp
  then obtain a b c where fs: "?fs = [a, b, c]"
    by (cases ?fs; simp; rename_tac x xs; case_tac xs; simp; rename_tac y ys; case_tac ys; simp)
  from t have all: "\<And>i. i < 3 \<Longrightarrow>
      Data (?fs ! i) = take 2 (drop (i * 2) [1, 2, 3, 4, 5]) \<and>
      unat (TotalFrags (?fs ! i)) = 3 \<and>
      (IsFirstFragment (?fs ! i) \<longleftrightarrow> i = 0) \<and> (IsLastFragment (?fs ! i) \<longleftrightarrow> i = 2)"
    unfolding len by simp
  from all [of 0] all [of 1] all [of 2] have
    "map Data ?fs = [[1, 2], [3, 4], [5]]"
    "map IsFirstFragment ?fs = [True, False, False]"
    "map IsLastFragment ?fs = [False, False, True]"
    "map (\<lambda>f. unat (TotalFrags f)) ?fs = [3, 3, 3]"
    unfolding fs by simp_all
  with m big len show ?thesis by simp
qed

text \<open>
  Claim C8 as stated, for every payload, fails: a payload of 65536 bytes cut into pieces of
  one byte has 65536 pieces, a number that the 16-bit \<open>TotalFrags\<close> of the first frame (of
  any frame) does not hold.
\<close>

theorem split_total_fragments_counterexample:
  "unat (TotalFrags (split (replicate 65536 0) 1 [] 0 0 ! 0))
     \<noteq> (length (replicate 65536 (0 :: byte)) + 1 - 1) div 1"
proof -
  have "split (replicate 65536 0) 1 [] 0 0 ! 0 =
          NewFragmentTDMAFrame 0 [] 0 (of_nat ((length (replicate 65536 (0 :: byte)) + 1 - 1) div 1))
            (of_nat 0) (take 1 (drop (0 * 1) (replicate 65536 0))) (0 = (0::nat))
            ((0::nat) = (length (replicate 65536 (0 :: byte)) + 1 - 1) div 1 - 1)"
    by (rule nth_split) simp_all
  then show ?thesis
    by (simp add: NewFragmentTDMAFrame_fields)
qed

section \<open>The scheduler's invariant\<close>

text \<open>
  The hypothesis of claim C5, that the current slot lies in the table, holds in every state
  the program reaches: \<^verbatim>\<open>NewTDMAScheduler\<close> establishes it for a positive number of
  slots, the ticker keeps it, and \<open>AllocateTimeSlot\<close> changes neither the current slot nor
  the number of slots.
\<close>

lemma NewTDMAScheduler_in_range:
  "0 < n \<Longrightarrow> 0 \<le> currentSlot (NewTDMAScheduler n d now) \<and>
     currentSlot (NewTDMAScheduler n d now) < totalSlots (NewTDMAScheduler n d now)"
  by (simp add: NewTDMAScheduler_def)

lemma tick_in_range:
  assumes "0 \<le> currentSlot s" and "currentSlot s < totalSlots s" and "tick s = Inr s'"
  shows "0 \<le> currentSlot s' \<and> currentSlot s' < totalSlots s' \<and> totalSlots s' = totalSlots s"
proof -
  from assms(1,2) have n: "0 < totalSlots s" by simp
  from assms(1) have "(currentSlot s + 1) smod totalSlots s = (currentSlot s + 1) mod totalSlots s"
    using n by (intro smod_nonneg) simp_all
  with assms(3) n show ?thesis
    by (auto simp: tick_def split: if_splits)
qed

lemma scan_free_fields:
  "scan_free s nodeID now cur offset = Some (r, s') \<Longrightarrow>
   totalSlots s' = totalSlots s \<and> currentSlot s' = currentSlot s"
proof (induction s nodeID now cur offset rule: scan_free.induct)
  case (1 s nodeID now cur offset)
  then show ?case
    by (auto simp: scan_free.simps [of s nodeID now cur offset] Let_def put_slot_def
        split: option.splits if_splits)
qed

lemma take_if_free_fields:
  assumes "take_if_free s k nodeID now other = (r, s')"
    and "\<And>r s'. other = (r, s') \<Longrightarrow> totalSlots s' = totalSlots s \<and> currentSlot s' = currentSlot s"
  shows "totalSlots s' = totalSlots s \<and> currentSlot s' = currentSlot s"
  using assms
  by (auto simp: take_if_free_def put_slot_def split: option.splits if_splits)

lemma reuse_oldest_fields:
  "reuse_oldest s nodeID now = (r, s') \<Longrightarrow>
   totalSlots s' = totalSlots s \<and> currentSlot s' = currentSlot s"
  by (auto simp: reuse_oldest_def put_slot_def split: sum.splits prod.splits option.splits if_splits)

lemma scan_ring_fields:
  "scan_ring s nodeID now = (r, s') \<Longrightarrow>
   totalSlots s' = totalSlots s \<and> currentSlot s' = currentSlot s"
  by (auto simp: scan_ring_def split: option.splits
      dest: scan_free_fields reuse_oldest_fields)

lemma AllocateTimeSlot_fields:
  assumes "AllocateTimeSlot s nodeID priority now = (r, s')"
  shows "totalSlots s' = totalSlots s \<and> currentSlot s' = currentSlot s"
proof -
  obtain r1 s1 where own: "own_slot nodeID now 0 s = (r1, s1)"
    by (cases "own_slot nodeID now 0 s")
  from own_slot_fields [OF own]
  have f1: "totalSlots s1 = totalSlots s" "currentSlot s1 = currentSlot s" by simp_all
  have "totalSlots s' = totalSlots s1 \<and> currentSlot s' = currentSlot s1"
  proof (cases r1)
    case (Inl e)
    with assms own show ?thesis by (simp add: AllocateTimeSlot_def)
  next
    case (Inr opt)
    show ?thesis
    proof (cases opt)
      case (Some i)
      with Inr assms own show ?thesis by (simp add: AllocateTimeSlot_def)
    next
      case None
      show ?thesis
      proof (cases "totalSlots s1 = 0")
        case True
        with None Inr assms own show ?thesis by (simp add: AllocateTimeSlot_def)
      next
        case False
        with None Inr assms own
        have "take_if_free s1 (currentSlot s1) nodeID now
                (take_if_free s1 ((currentSlot s1 + 1) smod totalSlots s1) nodeID now
                   (scan_ring s1 nodeID now)) = (r, s')"
          by (simp add: AllocateTimeSlot_def)
        then show ?thesis
          by (rule take_if_free_fields) (erule take_if_free_fields, erule scan_ring_fields)
      qed
    qed
  qed
  with f1 show ?thesis by simp
qed

end
